theory Spec2Isabelle
  imports Main
begin

section \<open>Python values used by the extractor\<close>

text \<open>
  The extractor is a Python script.  Text is modelled as \<^typ>\<open>string\<close>, one \<^typ>\<open>char\<close> per
  code point below 256; integers are unbounded (\<^typ>\<open>int\<close>); every exception the script
  can raise is a value of \<open>error\<close>, and a function that may raise returns \<open>error + 'a\<close>.
\<close>

datatype error = AttributeError | ValueError | OverflowError | IndexError | TypeError | ReError

abbreviation bslash :: char where
  "bslash \<equiv> CHR 0x5C"

abbreviation newline :: char where
  "newline \<equiv> CHR 0x0A"

definition isdigit :: "char \<Rightarrow> bool" where
  "isdigit c = (48 \<le> (of_char c :: nat) \<and> (of_char c :: nat) \<le> 57)"

definition digit_val :: "char \<Rightarrow> nat" where
  "digit_val c = of_char c - 48"

text \<open>The ASCII letters and digits: an escape of one of them is not a literal in a pattern.\<close>

definition is_ascii_alnum :: "char \<Rightarrow> bool" where
  "is_ascii_alnum c =
     (let n = (of_char c :: nat)
      in (48 \<le> n \<and> n \<le> 57) \<or> (65 \<le> n \<and> n \<le> 90) \<or> (97 \<le> n \<and> n \<le> 122))"

text \<open>\<open>str.isspace\<close> on the code points below 256.\<close>

definition isspace :: "char \<Rightarrow> bool" where
  "isspace c =
     (let n = (of_char c :: nat)
      in (9 \<le> n \<and> n \<le> 13) \<or> (28 \<le> n \<and> n \<le> 32) \<or> n = 133 \<or> n = 160)"

text \<open>\<open>s.split(sep)\<close> for a separator of one character: never empty, empty fields kept.\<close>

fun cons_first :: "char \<Rightarrow> string list \<Rightarrow> string list" where
  "cons_first c [] = [[c]]"
| "cons_first c (w # ws) = (c # w) # ws"

fun py_split :: "char \<Rightarrow> string \<Rightarrow> string list" where
  "py_split sep [] = [[]]"
| "py_split sep (c # cs) =
     (if c = sep then [] # py_split sep cs else cons_first c (py_split sep cs))"

text \<open>\<open>sep.join(ws)\<close>.\<close>

fun py_join :: "string \<Rightarrow> string list \<Rightarrow> string" where
  "py_join sep [] = []"
| "py_join sep [w] = w"
| "py_join sep (w # ws) = w @ sep @ py_join sep ws"

text \<open>\<open>xs[i:j]\<close>: negative bounds count from the end, every bound is clamped, never raises.\<close>

definition py_slice :: "'a list \<Rightarrow> int \<Rightarrow> int \<Rightarrow> 'a list" where
  "py_slice xs i j =
     (let n = int (length xs);
          a = (if i < 0 then max (i + n) 0 else min i n);
          b = (if j < 0 then max (j + n) 0 else min j n)
      in take (nat (b - a)) (drop (nat a) xs))"

text \<open>\<open>xs[i]\<close>: negative indices count from the end, out of range raises.\<close>

definition py_get :: "'a list \<Rightarrow> int \<Rightarrow> error + 'a" where
  "py_get xs i =
     (let n = int (length xs); j = (if i < 0 then i + n else i)
      in if 0 \<le> j \<and> j < n then Inr (xs ! nat j) else Inl IndexError)"

text \<open>\<open>s.find(c)\<close> for one character: the first index, or -1.\<close>

fun find_from :: "char \<Rightarrow> nat \<Rightarrow> string \<Rightarrow> int" where
  "find_from c i [] = - 1"
| "find_from c i (x # xs) = (if x = c then int i else find_from c (Suc i) xs)"

definition py_find :: "char \<Rightarrow> string \<Rightarrow> int" where
  "py_find c s = find_from c 0 s"

text \<open>
  The whitespace that \<open>int()\<close> and \<open>float()\<close> strip from a string: the ASCII whitespace
  of C and the whitespace code points from 128 on (not the separators 28 to 31).
\<close>

definition is_num_space :: "char \<Rightarrow> bool" where
  "is_num_space c =
     (let n = (of_char c :: nat)
      in (9 \<le> n \<and> n \<le> 13) \<or> n = 32 \<or> n = 133 \<or> n = 160)"

definition num_strip :: "string \<Rightarrow> string" where
  "num_strip s = rev (dropWhile is_num_space (rev (dropWhile is_num_space s)))"

text \<open>\<open>str(n)\<close> for an integer.\<close>

function str_digits :: "int \<Rightarrow> string" where
  "str_digits n =
     (if n < 10 then [char_of (48 + n)]
      else str_digits (n div 10) @ [char_of (48 + n mod 10)])"
  by pat_completeness auto
termination
  by (relation "measure nat") auto

definition py_str :: "int \<Rightarrow> string" where
  "py_str n = (if n < 0 then CHR ''-'' # str_digits (- n) else str_digits n)"

definition digits_val :: "string \<Rightarrow> int" where
  "digits_val s = foldl (\<lambda>a c. 10 * a + int (digit_val c)) 0 s"

text \<open>
  Digit groups of \<open>int()\<close>: one or more digits, single underscores allowed between
  two digits.  The flag tells whether the previous character was a digit.
\<close>

fun us_ok :: "bool \<Rightarrow> string \<Rightarrow> bool" where
  "us_ok pd [] = pd"
| "us_ok pd (c # cs) =
     (if isdigit c then us_ok True cs else (c = CHR ''_'' \<and> pd \<and> us_ok False cs))"

text \<open>\<open>int(s)\<close> for a string, base 10: surrounding whitespace, an optional sign, digits.\<close>

definition py_int :: "string \<Rightarrow> error + int" where
  "py_int s =
     (let t = num_strip s;
          neg = (t \<noteq> [] \<and> hd t = CHR ''-'');
          body = (if t \<noteq> [] \<and> (hd t = CHR ''-'' \<or> hd t = CHR ''+'') then tl t else t)
      in if us_ok False body
         then Inr ((if neg then - 1 else 1) * digits_val (filter isdigit body))
         else Inl ValueError)"

section \<open>Python floats\<close>

text \<open>
  A float is an IEEE 754 double: \<open>Finite neg m e\<close> is \<open>m * 2^e\<close> with the sign \<open>neg\<close>, where
  \<open>2^52 \<le> m < 2^53\<close> and \<open>-1074 \<le> e \<le> 971\<close> (normal), or \<open>m < 2^52\<close> and \<open>e = -1074\<close>
  (subnormal and zero).  \<open>float()\<close>, the conversion of an int and the product round to
  nearest, ties to even.
\<close>

datatype pyfloat = Finite bool int int | Infinity bool | NaN

text \<open>The number of binary digits of a positive integer.\<close>

function bitlen :: "int \<Rightarrow> int" where
  "bitlen n = (if n \<le> 0 then 0 else 1 + bitlen (n div 2))"
  by pat_completeness auto
termination
  by (relation "measure nat") auto

text \<open>The integer nearest to \<open>n / d\<close> (with \<open>0 \<le> n\<close> and \<open>0 < d\<close>), a tie going to the even one.\<close>

definition round_half_even :: "int \<Rightarrow> int \<Rightarrow> int" where
  "round_half_even n d =
     (let q = n div d; r = n mod d
      in if 2 * r < d then q else if d < 2 * r then q + 1 else if even q then q else q + 1)"

text \<open>
  The double nearest to \<open>n / d\<close> (with \<open>0 \<le> n\<close> and \<open>0 < d\<close>), infinite beyond the largest
  double.
\<close>

definition round_double :: "bool \<Rightarrow> int \<Rightarrow> int \<Rightarrow> pyfloat" where
  "round_double neg n d =
     (if n = 0 then Finite neg 0 (- 1074)
      else
        let l0 = bitlen n - bitlen d;
            l = (if (0 \<le> l0 \<and> d * 2 ^ nat l0 \<le> n) \<or> (l0 < 0 \<and> d \<le> n * 2 ^ nat (- l0))
                 then l0 else l0 - 1);
            e = max (l - 52) (- 1074);
            m = (if 0 \<le> e then round_half_even n (d * 2 ^ nat e)
                 else round_half_even (n * 2 ^ nat (- e)) d);
            m' = (if m = 2 ^ 53 then 2 ^ 52 else m);
            e' = (if m = 2 ^ 53 then e + 1 else e)
        in if 971 < e' then Infinity neg else Finite neg m' e')"

text \<open>The double nearest to \<open>m * 10^e10\<close>.\<close>

definition float_of_decimal :: "bool \<Rightarrow> int \<Rightarrow> int \<Rightarrow> pyfloat" where
  "float_of_decimal neg m e10 =
     (if 0 \<le> e10 then round_double neg (m * 10 ^ nat e10) 1
      else round_double neg m (10 ^ nat (- e10)))"

text \<open>In the text of a float an underscore must stand between two digits.\<close>

fun fus_ok :: "bool \<Rightarrow> string \<Rightarrow> bool" where
  "fus_ok pd [] = True"
| "fus_ok pd (c # cs) =
     (if c = CHR ''_'' then pd \<and> cs \<noteq> [] \<and> isdigit (hd cs) \<and> fus_ok False cs
      else fus_ok (isdigit c) cs)"

definition to_lower :: "char \<Rightarrow> char" where
  "to_lower c =
     (if 65 \<le> (of_char c :: nat) \<and> (of_char c :: nat) \<le> 90 then char_of ((of_char c :: nat) + 32)
      else c)"

text \<open>The exponent of a float text, from the \<open>e\<close> on; empty means no exponent.\<close>

definition float_exponent :: "string \<Rightarrow> int option" where
  "float_exponent r =
     (if r = [] then Some 0
      else if hd r = CHR ''e'' \<or> hd r = CHR ''E''
      then (let r' = tl r;
                eneg = (r' \<noteq> [] \<and> hd r' = CHR ''-'');
                ed = (if r' \<noteq> [] \<and> (hd r' = CHR ''-'' \<or> hd r' = CHR ''+'') then tl r' else r')
            in if ed \<noteq> [] \<and> list_all isdigit ed
               then Some ((if eneg then - 1 else 1) * digits_val ed)
               else None)
      else None)"

text \<open>
  An unsigned decimal: digits with an optional point and an optional exponent, at least
  one digit before the exponent.
\<close>

definition float_number :: "bool \<Rightarrow> string \<Rightarrow> error + pyfloat" where
  "float_number neg body =
     (let ip = takeWhile isdigit body;
          r1 = dropWhile isdigit body;
          dot = (r1 \<noteq> [] \<and> hd r1 = CHR ''.'');
          fp = (if dot then takeWhile isdigit (tl r1) else []);
          r2 = (if dot then dropWhile isdigit (tl r1) else r1)
      in if ip = [] \<and> fp = [] then Inl ValueError
         else (case float_exponent r2 of
                 None \<Rightarrow> Inl ValueError
               | Some ex \<Rightarrow> Inr (float_of_decimal neg (digits_val (ip @ fp)) (ex - int (length fp)))))"

definition float_unsigned :: "bool \<Rightarrow> string \<Rightarrow> error + pyfloat" where
  "float_unsigned neg body =
     (if map to_lower body = ''inf'' \<or> map to_lower body = ''infinity'' then Inr (Infinity neg)
      else if map to_lower body = ''nan'' then Inr NaN
      else float_number neg body)"

text \<open>
  \<open>float(s)\<close> for a string: surrounding whitespace, an optional sign, then \<open>inf\<close>,
  \<open>infinity\<close> or \<open>nan\<close> in any case, or an unsigned decimal.
\<close>

definition py_float :: "string \<Rightarrow> error + pyfloat" where
  "py_float s =
     (if \<not> fus_ok False s then Inl ValueError
      else
        let t = num_strip (filter (\<lambda>c. c \<noteq> CHR ''_'') s);
            neg = (t \<noteq> [] \<and> hd t = CHR ''-'');
            body = (if t \<noteq> [] \<and> (hd t = CHR ''-'' \<or> hd t = CHR ''+'') then tl t else t)
        in float_unsigned neg body)"

text \<open>An int as a float, as the product of an int and a float converts it.\<close>

definition int_to_float :: "int \<Rightarrow> error + pyfloat" where
  "int_to_float u =
     (case round_double (u < 0) \<bar>u\<bar> 1 of
        Infinity _ \<Rightarrow> Inl OverflowError
      | f \<Rightarrow> Inr f)"

fun float_mul :: "pyfloat \<Rightarrow> pyfloat \<Rightarrow> pyfloat" where
  "float_mul NaN _ = NaN"
| "float_mul _ NaN = NaN"
| "float_mul (Infinity s) (Infinity t) = Infinity (s \<noteq> t)"
| "float_mul (Infinity s) (Finite t n f) = (if n = 0 then NaN else Infinity (s \<noteq> t))"
| "float_mul (Finite s m e) (Infinity t) = (if m = 0 then NaN else Infinity (s \<noteq> t))"
| "float_mul (Finite s m e) (Finite t n f) =
     (if 0 \<le> e + f then round_double (s \<noteq> t) (m * n * 2 ^ nat (e + f)) 1
      else round_double (s \<noteq> t) (m * n) (2 ^ nat (- (e + f))))"

text \<open>\<open>u * c\<close> for an int \<open>u\<close> and a float \<open>c\<close>.\<close>

definition int_mul_float :: "int \<Rightarrow> pyfloat \<Rightarrow> error + pyfloat" where
  "int_mul_float u c = (case int_to_float u of Inl e \<Rightarrow> Inl e | Inr f \<Rightarrow> Inr (float_mul f c))"

text \<open>\<open>x == y\<close> on floats: NaN equals nothing, not even itself, and the two zeros are equal.\<close>

fun float_is_zero :: "pyfloat \<Rightarrow> bool" where
  "float_is_zero (Finite s m e) = (m = 0)"
| "float_is_zero (Infinity s) = False"
| "float_is_zero NaN = False"

definition float_eq :: "pyfloat \<Rightarrow> pyfloat \<Rightarrow> bool" where
  "float_eq x y = (x \<noteq> NaN \<and> y \<noteq> NaN \<and> (x = y \<or> (float_is_zero x \<and> float_is_zero y)))"

section \<open>datetime\<close>

text \<open>A \<open>datetime\<close> at midnight; the script never sets the time of day.\<close>

record datetime =
  year :: int
  month :: int
  day :: int

definition is_leap :: "int \<Rightarrow> bool" where
  "is_leap y = (y mod 4 = 0 \<and> (y mod 100 \<noteq> 0 \<or> y mod 400 = 0))"

definition days_in_month :: "int \<Rightarrow> int \<Rightarrow> int" where
  "days_in_month y m =
     (if m = 2 then (if is_leap y then 29 else 28)
      else if m = 4 \<or> m = 6 \<or> m = 9 \<or> m = 11 then 30 else 31)"

definition c_int :: "int \<Rightarrow> bool" where
  "c_int n = (- 2147483648 \<le> n \<and> n \<le> 2147483647)"

text \<open>\<open>datetime.datetime(y, m, d)\<close>.\<close>

definition datetime_new :: "int \<Rightarrow> int \<Rightarrow> int \<Rightarrow> error + datetime" where
  "datetime_new y m d =
     (if \<not> c_int y \<or> \<not> c_int m \<or> \<not> c_int d then Inl OverflowError
      else if y < 1 \<or> 9999 < y then Inl ValueError
      else if m < 1 \<or> 12 < m then Inl ValueError
      else if d < 1 \<or> days_in_month y m < d then Inl ValueError
      else Inr \<lparr>year = y, month = m, day = d\<rparr>)"

text \<open>\<open>a < b\<close> on datetimes: chronological order.\<close>

definition datetime_less :: "datetime \<Rightarrow> datetime \<Rightarrow> bool" where
  "datetime_less a b =
     (year a < year b \<or> (year a = year b \<and> (month a < month b \<or> (month a = month b \<and> day a < day b))))"

text \<open>\<open>max(ds)\<close>: the first of the greatest elements; an empty argument raises.\<close>

fun max_from :: "datetime \<Rightarrow> datetime list \<Rightarrow> datetime" where
  "max_from m [] = m"
| "max_from m (d # ds) = max_from (if datetime_less m d then d else m) ds"

fun py_max :: "datetime list \<Rightarrow> error + datetime" where
  "py_max [] = Inl ValueError"
| "py_max (d # ds) = Inr (max_from d ds)"

text \<open>\<open>functools.reduce(f, xs)\<close> without an initial value.\<close>

fun py_reduce :: "('a \<Rightarrow> 'a \<Rightarrow> 'a) \<Rightarrow> 'a list \<Rightarrow> error + 'a" where
  "py_reduce f [] = Inl TypeError"
| "py_reduce f (x # xs) = Inr (foldl f x xs)"

text \<open>A list built by calls that may raise: the first error wins.\<close>

fun map_err :: "('a \<Rightarrow> error + 'b) \<Rightarrow> 'a list \<Rightarrow> error + 'b list" where
  "map_err f [] = Inr []"
| "map_err f (x # xs) =
     (case f x of
        Inl e \<Rightarrow> Inl e
      | Inr y \<Rightarrow> (case map_err f xs of Inl e \<Rightarrow> Inl e | Inr ys \<Rightarrow> Inr (y # ys)))"

section \<open>The fragment of Python's re module that the extractor uses\<close>

text \<open>
  The patterns of the script use digit classes, the dot, literal and escaped characters,
  character sets, \<open>^\<close>, the quantifiers \<open>*\<close> and \<open>{n}\<close> on one character, and positive and
  negative lookahead.  A pattern is compiled from its text; a pattern outside this
  fragment compiles to nothing and the search reports \<open>ReError\<close>.
\<close>

datatype atom = Digit | AnyChar | Lit char | OneOf "char list"

fun atom_ok :: "atom \<Rightarrow> char \<Rightarrow> bool" where
  "atom_ok Digit c = isdigit c"
| "atom_ok AnyChar c = (c \<noteq> newline)"
| "atom_ok (Lit a) c = (c = a)"
| "atom_ok (OneOf as) c = (c \<in> set as)"

datatype rx = Atom atom | Bol | Eps | Cat rx rx | Rep atom nat | Star atom | Look rx | NLook rx

fun seq :: "rx list \<Rightarrow> rx" where
  "seq [] = Eps"
| "seq (r # rs) = Cat r (seq rs)"

datatype frame_kind = KTop | KLook | KNLook

datatype pmode = Norm | Esc | Open1 | Open2 | Brace nat bool | Cls "char list" | ClsEsc "char list"

type_synonym pstate = "pmode \<times> (frame_kind \<times> rx list) list"

definition push_item :: "rx \<Rightarrow> (frame_kind \<times> rx list) list \<Rightarrow> pstate option" where
  "push_item r stack =
     (case stack of [] \<Rightarrow> None | (k, items) # rest \<Rightarrow> Some (Norm, (k, r # items) # rest))"

text \<open>A quantifier replaces the last item of the open group, which must be one character.\<close>

definition quantify :: "(atom \<Rightarrow> rx) \<Rightarrow> (frame_kind \<times> rx list) list \<Rightarrow> pstate option" where
  "quantify q stack =
     (case stack of
        (k, Atom a # items) # rest \<Rightarrow> Some (Norm, (k, q a # items) # rest)
      | _ \<Rightarrow> None)"

definition close_group :: "(frame_kind \<times> rx list) list \<Rightarrow> pstate option" where
  "close_group stack =
     (case stack of
        (KLook, items) # (k, outer) # rest \<Rightarrow> Some (Norm, (k, Look (seq (rev items)) # outer) # rest)
      | (KNLook, items) # (k, outer) # rest \<Rightarrow> Some (Norm, (k, NLook (seq (rev items)) # outer) # rest)
      | _ \<Rightarrow> None)"

text \<open>One character of the pattern text.  The items of a group are kept in reverse.\<close>

fun pstep :: "pstate \<Rightarrow> char \<Rightarrow> pstate option" where
  "pstep (Norm, stack) c =
     (if c = bslash then Some (Esc, stack)
      else if c = CHR ''('' then Some (Open1, stack)
      else if c = CHR '')'' then close_group stack
      else if c = CHR ''^'' then push_item Bol stack
      else if c = CHR ''.'' then push_item (Atom AnyChar) stack
      else if c = CHR ''*'' then quantify Star stack
      else if c = CHR ''{'' then Some (Brace 0 False, stack)
      else if c = CHR ''['' then Some (Cls [], stack)
      else if c \<in> set ''+?|$]}'' then None
      else push_item (Atom (Lit c)) stack)"
| "pstep (Esc, stack) c =
     (if c = CHR ''d'' then push_item (Atom Digit) stack
      else if is_ascii_alnum c then None
      else push_item (Atom (Lit c)) stack)"
| "pstep (Open1, stack) c = (if c = CHR ''?'' then Some (Open2, stack) else None)"
| "pstep (Open2, stack) c =
     (if c = CHR ''='' then Some (Norm, (KLook, []) # stack)
      else if c = CHR ''!'' then Some (Norm, (KNLook, []) # stack)
      else None)"
| "pstep (Brace n seen, stack) c =
     (if isdigit c then Some (Brace (10 * n + digit_val c) True, stack)
      else if c = CHR ''}'' \<and> seen then quantify (\<lambda>a. Rep a n) stack
      else None)"
| "pstep (Cls cs, stack) c =
     (if c = bslash then Some (ClsEsc cs, stack)
      else if c = CHR '']'' then (if cs = [] then None else push_item (Atom (OneOf (rev cs))) stack)
      else if c \<in> set ''^-['' then None
      else Some (Cls (c # cs), stack))"
| "pstep (ClsEsc cs, stack) c = (if is_ascii_alnum c then None else Some (Cls (c # cs), stack))"

fun prun :: "pstate \<Rightarrow> string \<Rightarrow> pstate option" where
  "prun st [] = Some st"
| "prun st (c # cs) = (case pstep st c of None \<Rightarrow> None | Some st' \<Rightarrow> prun st' cs)"

definition re_compile :: "string \<Rightarrow> rx option" where
  "re_compile pat =
     (case prun (Norm, [(KTop, [])]) pat of
        Some (Norm, [(KTop, items)]) \<Rightarrow> Some (seq (rev items))
      | _ \<Rightarrow> None)"

text \<open>The lengths a starred character can consume, longest first (the star is greedy).\<close>

fun star_lens :: "atom \<Rightarrow> string \<Rightarrow> nat list" where
  "star_lens a [] = [0]"
| "star_lens a (c # cs) = (if atom_ok a c then map Suc (star_lens a cs) @ [0] else [0])"

text \<open>
  \<open>rmatch r p s\<close>: the numbers of characters that \<open>r\<close> can consume from \<open>s\<close>, which starts
  at index \<open>p\<close> of the subject, in the order in which a backtracking matcher tries them.
\<close>

fun rmatch :: "rx \<Rightarrow> nat \<Rightarrow> string \<Rightarrow> nat list" where
  "rmatch (Atom a) p s = (case s of [] \<Rightarrow> [] | c # _ \<Rightarrow> if atom_ok a c then [1] else [])"
| "rmatch Bol p s = (if p = 0 then [0] else [])"
| "rmatch Eps p s = [0]"
| "rmatch (Cat r1 r2) p s =
     concat (map (\<lambda>k. map (\<lambda>j. k + j) (rmatch r2 (p + k) (drop k s))) (rmatch r1 p s))"
| "rmatch (Rep a n) p s = (if n \<le> length s \<and> list_all (atom_ok a) (take n s) then [n] else [])"
| "rmatch (Star a) p s = star_lens a s"
| "rmatch (Look r) p s = (if rmatch r p s = [] then [] else [0])"
| "rmatch (NLook r) p s = (if rmatch r p s = [] then [0] else [])"

text \<open>The leftmost match from index \<open>p\<close> on: its start and end.\<close>

fun search_at :: "rx \<Rightarrow> nat \<Rightarrow> string \<Rightarrow> (nat \<times> nat) option" where
  "search_at r p [] = (case rmatch r p [] of [] \<Rightarrow> None | k # _ \<Rightarrow> Some (p, p + k))"
| "search_at r p (c # cs) =
     (case rmatch r p (c # cs) of [] \<Rightarrow> search_at r (Suc p) cs | k # _ \<Rightarrow> Some (p, p + k))"

text \<open>\<open>re.search(pat, s)\<close>: the span of the match, \<open>None\<close> when there is none.\<close>

definition re_search :: "string \<Rightarrow> string \<Rightarrow> error + (nat \<times> nat) option" where
  "re_search pat s =
     (case re_compile pat of None \<Rightarrow> Inl ReError | Some r \<Rightarrow> Inr (search_at r 0 s))"

text \<open>
  \<open>re.findall\<close> for a pattern without groups: the matched substrings, left to right, not
  overlapping.  After an empty match the next match may not be empty at the same index.
\<close>

function findall_from :: "rx \<Rightarrow> string \<Rightarrow> nat \<Rightarrow> bool \<Rightarrow> string list" where
  "findall_from r s p must_advance =
     (if length s < p then []
      else (case filter (\<lambda>k. \<not> must_advance \<or> 0 < k) (rmatch r p (drop p s)) of
              [] \<Rightarrow> findall_from r s (Suc p) False
            | k # _ \<Rightarrow> take k (drop p s) # findall_from r s (p + k) (k = 0)))"
  by pat_completeness auto
termination
proof (relation "measure (\<lambda>(r, s, p, m). 2 * (Suc (length s) - p) + (if m then 0 else 1))",
    goal_cases)
  case 1
  show ?case by simp
next
  case (2 r s p m)
  then show ?case by (auto split: if_splits)
next
  case (3 r s p m k ks)
  then have "k \<in> set (filter (\<lambda>k. \<not> m \<or> 0 < k) (rmatch r p (drop p s)))"
    by simp
  then have "\<not> m \<or> 0 < k"
    by simp
  with 3 show ?case by (auto split: if_splits)
qed

definition re_findall :: "string \<Rightarrow> string \<Rightarrow> error + string list" where
  "re_findall pat s =
     (case re_compile pat of None \<Rightarrow> Inl ReError | Some r \<Rightarrow> Inr (findall_from r s 0 False))"

section \<open>Vendor\<close>

record Vendor =
  name :: string
  dateFormat :: string
  itemRegex :: string
  itemNameOffsetIndex :: int
  unitsOffsetIndex :: int
  unitCostOffsetIndex :: int

section \<open>Item\<close>

record Item =
  name :: string
  units :: int
  unitCost :: pyfloat
  total :: pyfloat

text \<open>
  \<open>Item.__init__\<close>, called with the unit count and the unit cost as text, as
  \<open>extractItems\<close> calls it.
\<close>

definition Item_init :: "string \<Rightarrow> string \<Rightarrow> string \<Rightarrow> error + Item" where
  "Item_init name' units' unitCost' =
     (case py_int units' of
        Inl e \<Rightarrow> Inl e
      | Inr u \<Rightarrow>
          (case py_float unitCost' of
             Inl e \<Rightarrow> Inl e
           | Inr c \<Rightarrow>
               (case int_mul_float u c of
                  Inl e \<Rightarrow> Inl e
                | Inr t \<Rightarrow> Inr \<lparr>name = name', units = u, unitCost = c, total = t\<rparr>)))"

text \<open>
  \<open>item.units = n\<close>, \<open>item.unitCost = x\<close> and \<open>item.total = x\<close>.  The class declares no
  property, no \<open>__slots__\<close> and no \<open>__setattr__\<close>, so an assignment to an attribute of an
  item stores the value and leaves the other attributes as they are.  The script itself
  never assigns to an item after its construction.
\<close>

definition Item_set_units :: "Item \<Rightarrow> int \<Rightarrow> Item" where
  "Item_set_units item n = item\<lparr>units := n\<rparr>"

definition Item_set_unitCost :: "Item \<Rightarrow> pyfloat \<Rightarrow> Item" where
  "Item_set_unitCost item x = item\<lparr>unitCost := x\<rparr>"

definition Item_set_total :: "Item \<Rightarrow> pyfloat \<Rightarrow> Item" where
  "Item_set_total item x = item\<lparr>total := x\<rparr>"

section \<open>Order.isValidItem\<close>

definition isValidItem :: "Vendor \<Rightarrow> int \<Rightarrow> bool" where
  "isValidItem vendor offsetStart =
     (if offsetStart + itemNameOffsetIndex vendor < 0 then False
      else if offsetStart + itemNameOffsetIndex vendor > offsetStart then False
      else if offsetStart + unitsOffsetIndex vendor < 0 then False
      else if offsetStart + unitsOffsetIndex vendor > offsetStart then False
      else if offsetStart + unitCostOffsetIndex vendor < 0 then False
      else if offsetStart + unitCostOffsetIndex vendor > offsetStart then False
      else True)"

section \<open>Order.extractItems\<close>

text \<open>
  The body of \<open>if self.isValidItem(offsetStart)\<close>: the fields of one item line.  The
  result is the item to append, \<open>None\<close> when the line is passed over, or the exception.
\<close>

definition extractFields :: "Vendor \<Rightarrow> string list \<Rightarrow> int \<Rightarrow> error + Item option" where
  "extractFields vendor words offsetStart =
     (let name' = py_join '' '' (py_slice words 1 (offsetStart + itemNameOffsetIndex vendor))
      in case py_get words (offsetStart + unitsOffsetIndex vendor) of
           Inl e \<Rightarrow> Inl e
         | Inr units' \<Rightarrow>
             (case py_get words (offsetStart + unitCostOffsetIndex vendor) of
                Inl e \<Rightarrow> Inl e
              | Inr costWord \<Rightarrow>
                  (let unitCostParts = py_split (CHR ''.'') costWord
                   in if 1 < length unitCostParts
                      then (case Item_init name' units'
                                   (unitCostParts ! 0 @ ''.'' @ py_slice (unitCostParts ! 1) 0 2) of
                              Inl e \<Rightarrow> Inl e
                            | Inr item \<Rightarrow> Inr (Some item))
                      else Inr None)))"

text \<open>The body of the loop of \<open>extractItems\<close> for one text line.\<close>

definition extractLine :: "Vendor \<Rightarrow> string \<Rightarrow> error + Item option" where
  "extractLine vendor line =
     (case re_search (itemRegex vendor) line of
        Inl e \<Rightarrow> Inl e
      | Inr None \<Rightarrow> Inr None
      | Inr (Some match) \<Rightarrow>
          (let words = py_split (CHR '' '') line;
               offsetStart = int (length words) - 1
           in if isValidItem vendor offsetStart then extractFields vendor words offsetStart
              else Inr None))"

text \<open>The loop over \<open>self.textLines\<close>, appending to \<open>self.items\<close>.\<close>

fun extractItems_loop :: "Vendor \<Rightarrow> string list \<Rightarrow> Item list \<Rightarrow> error + Item list" where
  "extractItems_loop vendor [] items = Inr items"
| "extractItems_loop vendor (line # rest) items =
     (case extractLine vendor line of
        Inl e \<Rightarrow> Inl e
      | Inr None \<Rightarrow> extractItems_loop vendor rest items
      | Inr (Some item) \<Rightarrow> extractItems_loop vendor rest (items @ [item]))"

definition extractItems :: "Vendor \<Rightarrow> string list \<Rightarrow> error + Item list" where
  "extractItems vendor textLines = extractItems_loop vendor textLines []"

section \<open>Order.extractDate\<close>

text \<open>The pattern \<open>[\/\-\.]\<close> that finds the delimiter of a date format.\<close>

definition delimRegex :: string where
  "delimRegex = ''['' @ [bslash] @ ''/'' @ [bslash] @ ''-'' @ [bslash] @ ''.]''"

text \<open>The pattern text of one character of the date format.\<close>

definition regexPart :: "string \<Rightarrow> char \<Rightarrow> string" where
  "regexPart dateDelim char = (if [char] \<noteq> dateDelim then [bslash, CHR ''d''] else bslash # dateDelim)"

text \<open>
  The function mapped over the matches of one line: the year, month and day are cut out
  of the match at the places of Y, M and D in the date format.
\<close>

definition parseDate ::
  "string \<Rightarrow> int \<Rightarrow> int \<Rightarrow> int \<Rightarrow> int \<Rightarrow> int \<Rightarrow> int \<Rightarrow> string \<Rightarrow> error + datetime" where
  "parseDate yearPrefix iY numY iM numM iD numD d =
     (case py_int (yearPrefix @ py_slice d iY (iY + numY)) of
        Inl e \<Rightarrow> Inl e
      | Inr y \<Rightarrow>
          (case py_int (py_slice d iM (iM + numM)) of
             Inl e \<Rightarrow> Inl e
           | Inr m \<Rightarrow>
               (case py_int (py_slice d iD (iD + numD)) of
                  Inl e \<Rightarrow> Inl e
                | Inr dd \<Rightarrow> datetime_new y m dd)))"

text \<open>The loop over the text lines, extending \<open>dates\<close>.\<close>

fun collectDates ::
  "(string \<Rightarrow> error + datetime) \<Rightarrow> string \<Rightarrow> string list \<Rightarrow> datetime list \<Rightarrow> error + datetime list" where
  "collectDates parse regex [] dates = Inr dates"
| "collectDates parse regex (line # rest) dates =
     (case re_findall regex line of
        Inl e \<Rightarrow> Inl e
      | Inr found \<Rightarrow>
          (case map_err parse found of
             Inl e \<Rightarrow> Inl e
           | Inr ds \<Rightarrow> collectDates parse regex rest (dates @ ds)))"

text \<open>
  \<open>numY\<close> and the year prefix of a date format; \<open>nowYear\<close> is the year of
  \<open>datetime.datetime.now()\<close>, which is read only when \<open>numY\<close> is 2.
\<close>

definition numOf :: "char \<Rightarrow> string \<Rightarrow> int" where
  "numOf c fmt = int (length (py_split c fmt)) - 1"

definition yearPrefixOf :: "string \<Rightarrow> int \<Rightarrow> string" where
  "yearPrefixOf fmt nowYear =
     (if numOf (CHR ''Y'') fmt = 2 then py_slice (py_str nowYear) 0 2 else [])"

definition extractDate :: "Vendor \<Rightarrow> int \<Rightarrow> string list \<Rightarrow> error + datetime" where
  "extractDate vendor nowYear textLines =
     (case re_search delimRegex (dateFormat vendor) of
        Inl e \<Rightarrow> Inl e
      | Inr None \<Rightarrow> Inl AttributeError
      | Inr (Some (a, b)) \<Rightarrow>
          (let dateDelim = take (b - a) (drop a (dateFormat vendor));
               regexParts = map (regexPart dateDelim) (dateFormat vendor)
           in case py_reduce (\<lambda>s c. s @ c) regexParts of
                Inl e \<Rightarrow> Inl e
              | Inr regex \<Rightarrow>
                  (let iD = py_find (CHR ''D'') (dateFormat vendor);
                       iM = py_find (CHR ''M'') (dateFormat vendor);
                       iY = py_find (CHR ''Y'') (dateFormat vendor);
                       numD = numOf (CHR ''D'') (dateFormat vendor);
                       numM = numOf (CHR ''M'') (dateFormat vendor);
                       numY = numOf (CHR ''Y'') (dateFormat vendor);
                       yearPrefix = yearPrefixOf (dateFormat vendor) nowYear
                   in case collectDates (parseDate yearPrefix iY numY iM numM iD numD)
                             regex textLines [] of
                        Inl e \<Rightarrow> Inl e
                      | Inr dates \<Rightarrow> py_max dates)))"

section \<open>Order\<close>

record Order =
  date :: datetime
  items :: "Item list"
  textLines :: "string list"
  vendor :: Vendor

text \<open>
  \<open>Order.__init__\<close>, given the lines that \<open>readPDF\<close> reads from the file and the year
  that the clock shows.
\<close>

definition Order_init :: "Vendor \<Rightarrow> int \<Rightarrow> string list \<Rightarrow> error + Order" where
  "Order_init vendor' nowYear lines =
     (case extractDate vendor' nowYear lines of
        Inl e \<Rightarrow> Inl e
      | Inr d \<Rightarrow>
          (case extractItems vendor' lines of
             Inl e \<Rightarrow> Inl e
           | Inr its \<Rightarrow> Inr \<lparr>date = d, items = its, textLines = lines, vendor = vendor'\<rparr>))"

section \<open>VendorList\<close>

definition SCREWFIX :: Vendor where
  "SCREWFIX =
     \<lparr>Vendor.name = ''Screwfix'', dateFormat = ''DD/MM/YYYY'',
      itemRegex = ''(?=^'' @ [bslash] @ ''d{3}.{2}'' @ [bslash] @ '' )(?!.*03330 112 999)'',
      itemNameOffsetIndex = - 8, unitsOffsetIndex = - 8, unitCostOffsetIndex = - 7\<rparr>"

definition TOOLSTATION :: Vendor where
  "TOOLSTATION =
     \<lparr>Vendor.name = ''Toolstation'', dateFormat = ''YYYY-MM-DD'',
      itemRegex = ''(?=^'' @ [bslash] @ ''d{5}'' @ [bslash] @ '' )(?!.*00006)(?!.*00037)'',
      itemNameOffsetIndex = - 1, unitsOffsetIndex = - 1, unitCostOffsetIndex = 0\<rparr>"

section \<open>Splitting on whitespace, as the specification words it\<close>

text \<open>
  The specification says that a matching line is split on whitespace.  This is that
  reading, \<open>line.split()\<close>: the tokens are the maximal runs of characters that are not
  whitespace.  It is compared below with the split on the space character that
  \<open>extractItems\<close> performs.
\<close>

fun ws_fields :: "string \<Rightarrow> string list" where
  "ws_fields [] = [[]]"
| "ws_fields (c # cs) = (if isspace c then [] # ws_fields cs else cons_first c (ws_fields cs))"

definition whitespace_tokens :: "string \<Rightarrow> string list" where
  "whitespace_tokens s = filter (\<lambda>w. w \<noteq> []) (ws_fields s)"

section \<open>Names for the parts of extractDate\<close>

text \<open>
  The pattern text that \<open>extractDate\<close> builds from a date format, the matches of a pattern
  in all the lines in order, and the function that \<open>extractDate\<close> maps over them.
\<close>

definition dateRegex :: "string \<Rightarrow> error + string" where
  "dateRegex fmt =
     (case re_search delimRegex fmt of
        Inl e \<Rightarrow> Inl e
      | Inr None \<Rightarrow> Inl AttributeError
      | Inr (Some (a, b)) \<Rightarrow>
          py_reduce (\<lambda>s c. s @ c) (map (regexPart (take (b - a) (drop a fmt))) fmt))"

definition dateMatches :: "string \<Rightarrow> string list \<Rightarrow> string list" where
  "dateMatches regex ls =
     concat (map (\<lambda>l. case re_findall regex l of Inl e \<Rightarrow> [] | Inr found \<Rightarrow> found) ls)"

definition dateParser :: "string \<Rightarrow> int \<Rightarrow> string \<Rightarrow> error + datetime" where
  "dateParser fmt nowYear =
     parseDate (yearPrefixOf fmt nowYear)
       (py_find (CHR ''Y'') fmt) (numOf (CHR ''Y'') fmt)
       (py_find (CHR ''M'') fmt) (numOf (CHR ''M'') fmt)
       (py_find (CHR ''D'') fmt) (numOf (CHR ''D'') fmt)"

text \<open>\<open>re.fullmatch(pat, s)\<close>, as a truth value: the whole of \<open>s\<close> matches the pattern.\<close>

definition re_fullmatch :: "string \<Rightarrow> string \<Rightarrow> error + bool" where
  "re_fullmatch pat s =
     (case re_compile pat of None \<Rightarrow> Inl ReError | Some r \<Rightarrow> Inr (length s \<in> set (rmatch r 0 s)))"

text \<open>What one character of a date format stands for in the pattern.\<close>

definition patom :: "char \<Rightarrow> char \<Rightarrow> atom" where
  "patom dl c = (if c = dl then Lit dl else Digit)"

section \<open>The sequence of dates, as the specification words it\<close>

text \<open>
  The specification collects every successfully parsed date across every line into one
  sequence and calls the resolution failed when that sequence is empty.  This is that
  sequence: the matches that do not parse are left out.  \<open>extractDate\<close> itself stops at
  the first match that does not parse.
\<close>

definition successfully_parsed :: "(string \<Rightarrow> error + datetime) \<Rightarrow> string list \<Rightarrow> datetime list" where
  "successfully_parsed parse found =
     concat (map (\<lambda>m. case parse m of Inl e \<Rightarrow> [] | Inr d \<Rightarrow> [d]) found)"

section \<open>Facts about the string primitives\<close>

lemma py_split_not_Nil: "py_split c s \<noteq> []"
proof (induction s)
  case Nil
  show ?case by simp
next
  case (Cons x xs)
  then show ?case by (cases "py_split c xs") auto
qed

lemma py_split_length: "length (py_split c s) = Suc (count_list s c)"
proof (induction s)
  case Nil
  show ?case by simp
next
  case (Cons x xs)
  obtain w ws where "py_split c xs = w # ws"
    using py_split_not_Nil [of c xs] by (cases "py_split c xs") auto
  with Cons show ?case by auto
qed

lemma py_join_Cons: "ws \<noteq> [] \<Longrightarrow> py_join sep (w # ws) = w @ sep @ py_join sep ws"
  by (cases ws) auto

lemma py_join_split: "py_join [c] (py_split c s) = s"
proof (induction s)
  case Nil
  show ?case by simp
next
  case (Cons x xs)
  obtain w ws where ws: "py_split c xs = w # ws"
    using py_split_not_Nil [of c xs] by (cases "py_split c xs") auto
  show ?case
  proof (cases "x = c")
    case True
    with Cons show ?thesis by (simp add: py_join_Cons py_split_not_Nil)
  next
    case False
    with Cons ws show ?thesis by (cases ws) auto
  qed
qed

lemma py_split_no_sep: "w \<in> set (py_split c s) \<Longrightarrow> c \<notin> set w"
proof (induction s arbitrary: w)
  case Nil
  then show ?case by simp
next
  case (Cons x xs)
  obtain v vs where vs: "py_split c xs = v # vs"
    using py_split_not_Nil [of c xs] by (cases "py_split c xs") auto
  from Cons.IH [of v] vs have v: "c \<notin> set v" by simp
  from Cons.IH vs have rest: "\<And>u. u \<in> set vs \<Longrightarrow> c \<notin> set u" by simp
  from Cons.prems vs v rest show ?case by (auto split: if_splits)
qed

lemma py_get_in_range: "0 \<le> i \<Longrightarrow> i < int (length xs) \<Longrightarrow> py_get xs i = Inr (xs ! nat i)"
  by (simp add: py_get_def)

section \<open>Facts about numbers read from text\<close>

lemma py_int_error: "py_int s = Inl e \<Longrightarrow> e = ValueError"
  by (simp add: py_int_def Let_def split: if_splits)

lemma float_number_error: "float_number neg body = Inl e \<Longrightarrow> e = ValueError"
  by (simp add: float_number_def Let_def split: if_splits option.splits)

lemma float_unsigned_error: "float_unsigned neg body = Inl e \<Longrightarrow> e = ValueError"
  by (simp add: float_unsigned_def float_number_error split: if_splits)

lemma py_float_error: "py_float s = Inl e \<Longrightarrow> e = ValueError"
  by (simp add: py_float_def Let_def float_unsigned_error split: if_splits)

lemma Item_init_int_error: "isl (py_int u) \<Longrightarrow> Item_init n u c = Inl ValueError"
proof -
  assume "isl (py_int u)"
  then obtain e where e: "py_int u = Inl e" by (cases "py_int u") auto
  then have "e = ValueError" by (rule py_int_error)
  with e show ?thesis by (simp add: Item_init_def)
qed

lemma Item_init_float_error: "isl (py_float c) \<Longrightarrow> Item_init n u c = Inl ValueError"
proof (cases "py_int u")
  case (Inl e)
  then have "isl (py_int u)" by simp
  then show ?thesis by (rule Item_init_int_error)
next
  case (Inr k)
  assume "isl (py_float c)"
  then obtain e where e: "py_float c = Inl e" by (cases "py_float c") auto
  then have "e = ValueError" by (rule py_float_error)
  with e Inr show ?thesis by (simp add: Item_init_def)
qed

lemma Item_init_fields:
  assumes "Item_init n u c = Inr it"
  shows "Item.name it = n" and "py_int u = Inr (units it)" and "py_float c = Inr (unitCost it)"
    and "int_mul_float (units it) (unitCost it) = Inr (total it)"
proof -
  from assms obtain k where k: "py_int u = Inr k"
    by (cases "py_int u") (simp_all add: Item_init_def)
  from assms k obtain f where f: "py_float c = Inr f"
    by (cases "py_float c") (simp_all add: Item_init_def)
  from assms k f obtain t where t: "int_mul_float k f = Inr t"
    by (cases "int_mul_float k f") (simp_all add: Item_init_def)
  from assms k f t have it: "it = \<lparr>Item.name = n, units = k, unitCost = f, total = t\<rparr>"
    by (simp add: Item_init_def)
  from it show "Item.name it = n" by simp
  from it k show "py_int u = Inr (units it)" by simp
  from it f show "py_float c = Inr (unitCost it)" by simp
  from it t show "int_mul_float (units it) (unitCost it) = Inr (total it)" by simp
qed

section \<open>Facts about the item loop\<close>

lemma isValidItem_bounds:
  "isValidItem v s \<Longrightarrow>
     (0 \<le> s + itemNameOffsetIndex v \<and> s + itemNameOffsetIndex v \<le> s) \<and>
     (0 \<le> s + unitsOffsetIndex v \<and> s + unitsOffsetIndex v \<le> s) \<and>
     (0 \<le> s + unitCostOffsetIndex v \<and> s + unitCostOffsetIndex v \<le> s)"
  by (simp add: isValidItem_def split: if_splits)

lemma extractLine_matched:
  "re_search (itemRegex v) line = Inr (Some m) \<Longrightarrow>
   extractLine v line =
     (if isValidItem v (int (length (py_split (CHR '' '') line)) - 1)
      then extractFields v (py_split (CHR '' '') line) (int (length (py_split (CHR '' '') line)) - 1)
      else Inr None)"
  by (simp add: extractLine_def Let_def)

lemma extractFields_valid:
  assumes "isValidItem v (int (length ws) - 1)"
  shows "extractFields v ws (int (length ws) - 1) =
     (let parts = py_split (CHR ''.'') (ws ! nat (int (length ws) - 1 + unitCostOffsetIndex v))
      in if 1 < length parts
         then (case Item_init (py_join '' '' (py_slice ws 1 (int (length ws) - 1 + itemNameOffsetIndex v)))
                       (ws ! nat (int (length ws) - 1 + unitsOffsetIndex v))
                       (parts ! 0 @ ''.'' @ take 2 (parts ! 1)) of
                 Inl e \<Rightarrow> Inl e | Inr item \<Rightarrow> Inr (Some item))
         else Inr None)"
proof -
  from isValidItem_bounds [OF assms]
  have u: "0 \<le> int (length ws) - 1 + unitsOffsetIndex v" "int (length ws) - 1 + unitsOffsetIndex v < int (length ws)"
    and c: "0 \<le> int (length ws) - 1 + unitCostOffsetIndex v" "int (length ws) - 1 + unitCostOffsetIndex v < int (length ws)"
    by auto
  have sl: "\<And>xs :: string. py_slice xs 0 2 = take 2 xs"
    by (simp add: py_slice_def Let_def min_def)
  show ?thesis
    by (simp add: extractFields_def py_get_in_range [OF u] py_get_in_range [OF c] sl Let_def)
qed

lemma extractLine_fields:
  assumes "re_search (itemRegex v) line = Inr (Some m)"
    and "words = py_split (CHR '' '') line"
    and "offsetStart = int (length words) - 1"
    and "isValidItem v offsetStart"
    and "unitCostParts = py_split (CHR ''.'') (words ! nat (offsetStart + unitCostOffsetIndex v))"
  shows "extractLine v line =
     (if 1 < length unitCostParts
      then (case Item_init (py_join '' '' (py_slice words 1 (offsetStart + itemNameOffsetIndex v)))
                    (words ! nat (offsetStart + unitsOffsetIndex v))
                    (unitCostParts ! 0 @ ''.'' @ take 2 (unitCostParts ! 1)) of
              Inl e \<Rightarrow> Inl e | Inr item \<Rightarrow> Inr (Some item))
      else Inr None)"
proof -
  from assms(2,3,4) have valid: "isValidItem v (int (length (py_split (CHR '' '') line)) - 1)"
    by simp
  have "extractLine v line =
      extractFields v (py_split (CHR '' '') line) (int (length (py_split (CHR '' '') line)) - 1)"
    using extractLine_matched [OF assms(1)] valid by simp
  also note extractFields_valid [OF valid]
  finally show ?thesis
    using assms(2,3,5) by (simp add: Let_def)
qed

lemma extractFields_item:
  assumes "extractFields v ws k = Inr (Some it)"
  shows "\<exists>n u c. Item_init n u c = Inr it"
proof -
  from assms obtain u where u: "py_get ws (k + unitsOffsetIndex v) = Inr u"
    by (cases "py_get ws (k + unitsOffsetIndex v)") (simp_all add: extractFields_def)
  from assms u obtain w where w: "py_get ws (k + unitCostOffsetIndex v) = Inr w"
    by (cases "py_get ws (k + unitCostOffsetIndex v)") (simp_all add: extractFields_def)
  let ?n = "py_join '' '' (py_slice ws 1 (k + itemNameOffsetIndex v))"
  let ?c = "py_split (CHR ''.'') w ! 0 @ ''.'' @ py_slice (py_split (CHR ''.'') w ! 1) 0 2"
  from assms u w have "Item_init ?n u ?c = Inr it"
    by (cases "Item_init ?n u ?c")
      (simp_all add: extractFields_def Let_def split: if_splits)
  then show ?thesis by blast
qed

lemma extractLine_item:
  assumes "extractLine v l = Inr (Some it)"
  shows "\<exists>n u c. Item_init n u c = Inr it"
proof (cases "re_search (itemRegex v) l")
  case (Inl e)
  with assms show ?thesis by (simp add: extractLine_def)
next
  case (Inr r)
  show ?thesis
  proof (cases r)
    case None
    with Inr assms show ?thesis by (simp add: extractLine_def)
  next
    case (Some m)
    with Inr assms have "extractFields v (py_split (CHR '' '') l) (int (length (py_split (CHR '' '') l)) - 1) = Inr (Some it)"
      by (simp add: extractLine_def Let_def split: if_splits)
    then show ?thesis by (rule extractFields_item)
  qed
qed

lemma extractItems_loop_inv:
  assumes "extractItems_loop v ls acc = Inr its"
    and "\<forall>it \<in> set acc. P it"
    and "\<And>l it. extractLine v l = Inr (Some it) \<Longrightarrow> P it"
  shows "\<forall>it \<in> set its. P it"
  using assms(1,2)
proof (induction ls arbitrary: acc)
  case Nil
  then show ?case by simp
next
  case (Cons l ls)
  show ?case
  proof (cases "extractLine v l")
    case (Inl e)
    with Cons.prems(1) show ?thesis by simp
  next
    case (Inr r)
    show ?thesis
    proof (cases r)
      case None
      with Inr Cons.prems(1) have "extractItems_loop v ls acc = Inr its" by simp
      from Cons.IH [OF this Cons.prems(2)] show ?thesis .
    next
      case (Some it)
      with Inr Cons.prems(1) have run: "extractItems_loop v ls (acc @ [it]) = Inr its" by simp
      from Inr Some have "P it" by (simp add: assms(3))
      with Cons.prems(2) have "\<forall>x \<in> set (acc @ [it]). P x" by simp
      from Cons.IH [OF run this] show ?thesis .
    qed
  qed
qed

lemma extractItems_loop_error:
  "line \<in> set ls \<Longrightarrow> isl (extractLine v line) \<Longrightarrow> isl (extractItems_loop v ls acc)"
proof (induction ls arbitrary: acc)
  case Nil
  then show ?case by simp
next
  case (Cons l ls)
  show ?case
  proof (cases "extractLine v l")
    case (Inl e)
    then show ?thesis by simp
  next
    case (Inr r)
    with Cons.prems have "line \<in> set ls" by auto
    then have "\<And>acc'. isl (extractItems_loop v ls acc')"
      using Cons.IH Cons.prems(2) by blast
    with Inr show ?thesis
      by (cases r) simp_all
  qed
qed

section \<open>Facts about the date pattern\<close>

lemma delimRegex_compile: "re_compile delimRegex = Some (Cat (Atom (OneOf ''/-.'')) Eps)"
  by code_simp

lemma search_at_oneof:
  "search_at (Cat (Atom (OneOf cs)) Eps) p s =
     (if \<exists>c \<in> set s. c \<in> set cs
      then Some (p + length (takeWhile (\<lambda>c. c \<notin> set cs) s),
                 p + length (takeWhile (\<lambda>c. c \<notin> set cs) s) + 1)
      else None)"
  by (induction s arbitrary: p) auto

lemma find_takeWhile:
  "find P xs = Some d \<Longrightarrow>
     (\<exists>c \<in> set xs. P c) \<and> take 1 (drop (length (takeWhile (\<lambda>c. \<not> P c) xs)) xs) = [d]"
  by (induction xs) (auto split: if_splits)

lemma find_None_set: "find P xs = None \<Longrightarrow> \<not> (\<exists>c \<in> set xs. P c)"
  by (induction xs) (auto split: if_splits)

lemma foldl_append_concat: "foldl (\<lambda>s c. s @ c) x xs = x @ concat xs"
  by (induction xs arbitrary: x) auto

lemma dateRegex_found:
  assumes "find (\<lambda>c. c \<in> set ''/-.'') fmt = Some dl"
  shows "dateRegex fmt = Inr (concat (map (regexPart [dl]) fmt))"
proof -
  from find_takeWhile [OF assms]
  have ex: "\<exists>c \<in> set fmt. c \<in> set ''/-.''"
    and tk: "take 1 (drop (length (takeWhile (\<lambda>c. c \<notin> set ''/-.'') fmt)) fmt) = [dl]"
    by simp_all
  from ex have ne: "fmt \<noteq> []" by auto
  then obtain x xs where fmt: "fmt = x # xs" by (cases fmt) auto
  have red: "py_reduce (\<lambda>s c. s @ c) (map (regexPart [dl]) fmt) = Inr (concat (map (regexPart [dl]) fmt))"
    by (simp add: fmt foldl_append_concat)
  have "re_search delimRegex fmt =
      Inr (Some (length (takeWhile (\<lambda>c. c \<notin> set ''/-.'') fmt),
                 length (takeWhile (\<lambda>c. c \<notin> set ''/-.'') fmt) + 1))"
    using ex by (simp only: re_search_def delimRegex_compile option.case search_at_oneof) simp
  then show ?thesis
    using tk red by (simp add: dateRegex_def)
qed

lemma dateRegex_not_found:
  assumes "find (\<lambda>c. c \<in> set ''/-.'') fmt = None"
  shows "dateRegex fmt = Inl AttributeError"
proof -
  from find_None_set [OF assms] have "\<not> (\<exists>c \<in> set fmt. c \<in> set ''/-.'')" .
  then have "re_search delimRegex fmt = Inr None"
    by (simp only: re_search_def delimRegex_compile option.case search_at_oneof) simp
  then show ?thesis by (simp add: dateRegex_def)
qed

lemma prun_append:
  "prun st (a @ b) = (case prun st a of None \<Rightarrow> None | Some st' \<Rightarrow> prun st' b)"
  by (induction a arbitrary: st) (auto split: option.splits)

lemma delim_char_facts:
  assumes "dl \<in> set ''/-.''"
  shows "dl \<noteq> CHR ''d''" and "\<not> is_ascii_alnum dl" and "dl \<noteq> bslash"
  using assms by (auto simp: is_ascii_alnum_def)

lemma prun_regexPart:
  assumes "dl \<in> set ''/-.''"
  shows "prun (Norm, (k, acc) # st) (regexPart [dl] c) =
         Some (Norm, (k, Atom (patom dl c) # acc) # st)"
  using delim_char_facts [OF assms]
  by (simp add: regexPart_def patom_def push_item_def)

lemma prun_regexParts:
  assumes "dl \<in> set ''/-.''"
  shows "prun (Norm, (k, acc) # st) (concat (map (regexPart [dl]) fmt)) =
         Some (Norm, (k, rev (map (\<lambda>c. Atom (patom dl c)) fmt) @ acc) # st)"
proof (induction fmt arbitrary: acc)
  case Nil
  show ?case by simp
next
  case (Cons c fmt)
  show ?case
    by (simp add: prun_append prun_regexPart [OF assms] Cons.IH)
qed

lemma dateRegex_compile:
  assumes "dl \<in> set ''/-.''"
  shows "re_compile (concat (map (regexPart [dl]) fmt)) = Some (seq (map (\<lambda>c. Atom (patom dl c)) fmt))"
  by (simp add: re_compile_def prun_regexParts [OF assms])

lemma rmatch_seq_atoms:
  "rmatch (seq (map Atom as)) p s =
     (if length as \<le> length s \<and> list_all2 atom_ok as (take (length as) s)
      then [length as] else [])"
proof (induction as arbitrary: p s)
  case Nil
  show ?case by simp
next
  case (Cons a as)
  show ?case
  proof (cases s)
    case Nil
    then show ?thesis by simp
  next
    case (Cons c cs)
    with Cons.IH show ?thesis by simp
  qed
qed

lemma findall_member:
  "m \<in> set (findall_from r s p b) \<Longrightarrow>
     \<exists>q k. q \<le> length s \<and> k \<in> set (rmatch r q (drop q s)) \<and> m = take k (drop q s)"
proof (induction r s p b rule: findall_from.induct)
  case (1 r s p must_advance)
  let ?ks = "filter (\<lambda>k. \<not> must_advance \<or> 0 < k) (rmatch r p (drop p s))"
  show ?case
  proof (cases "length s < p")
    case True
    with "1.prems" show ?thesis
      by (simp add: findall_from.simps [of r s p must_advance])
  next
    case False
    show ?thesis
    proof (cases ?ks)
      case Nil
      with False "1.prems" have "m \<in> set (findall_from r s (Suc p) False)"
        by (simp add: findall_from.simps [of r s p must_advance])
      with "1.IH"(1) [OF False Nil] show ?thesis by simp
    next
      case (Cons k ks)
      with False "1.prems"
      have "m = take k (drop p s) \<or> m \<in> set (findall_from r s (p + k) (k = 0))"
        by (simp add: findall_from.simps [of r s p must_advance])
      then show ?thesis
      proof
        assume m: "m = take k (drop p s)"
        from Cons have "k \<in> set ?ks" by simp
        then have "k \<in> set (rmatch r p (drop p s))" by simp
        with m False show ?thesis by (intro exI [of _ p] exI [of _ k]) simp
      next
        assume "m \<in> set (findall_from r s (p + k) (k = 0))"
        with "1.IH"(2) [OF False Cons] show ?thesis by simp
      qed
    qed
  qed
qed

lemma findall_whole:
  assumes "as \<noteq> []" and "length s = length as" and "list_all2 atom_ok as s"
  shows "findall_from (seq (map Atom as)) s 0 False = [s]"
proof -
  let ?r = "seq (map Atom as)"
  let ?n = "length as"
  from assms(1) have n: "0 < ?n" by simp
  have a: "rmatch ?r 0 (drop 0 s) = [?n]"
    using assms(2,3) by (simp add: rmatch_seq_atoms)
  have b: "rmatch ?r ?n (drop ?n s) = []"
    using assms(2) n by (simp add: rmatch_seq_atoms)
  have 3: "findall_from ?r s (Suc ?n) False = []"
    using assms(2) by (simp add: findall_from.simps [of ?r s "Suc ?n" False])
  have 2: "findall_from ?r s ?n False = []"
    using assms(2) b 3 by (simp add: findall_from.simps [of ?r s ?n False])
  show ?thesis
    using a 2 n assms(2) by (simp add: findall_from.simps [of ?r s 0 False])
qed

lemma skeleton_conv:
  "(length s = length fmt \<and> list_all2 atom_ok (map (patom dl) fmt) s) =
   (length s = length fmt \<and>
    (\<forall>i < length fmt. if fmt ! i = dl then s ! i = dl else isdigit (s ! i)))"
  by (auto simp: list_all2_conv_all_nth patom_def)

section \<open>Facts about the date loop\<close>

lemma map_err_isl: "isl (map_err f xs) = (\<exists>x \<in> set xs. isl (f x))"
proof (induction xs)
  case Nil
  show ?case by simp
next
  case (Cons x xs)
  then show ?case
    by (cases "f x"; cases "map_err f xs") auto
qed

lemma map_err_append:
  "map_err f (xs @ ys) =
     (case map_err f xs of
        Inl e \<Rightarrow> Inl e
      | Inr a \<Rightarrow> (case map_err f ys of Inl e \<Rightarrow> Inl e | Inr b \<Rightarrow> Inr (a @ b)))"
proof (induction xs)
  case Nil
  show ?case by (cases "map_err f ys") simp_all
next
  case (Cons x xs)
  then show ?case
    by (cases "f x"; cases "map_err f xs"; cases "map_err f ys") simp_all
qed

lemma map_err_all_parsed:
  "\<forall>m \<in> set found. \<not> isl (parse m) \<Longrightarrow>
   map_err parse found = Inr (successfully_parsed parse found)"
proof (induction found)
  case Nil
  show ?case by (simp add: successfully_parsed_def)
next
  case (Cons m found)
  then have "map_err parse found = Inr (successfully_parsed parse found)" by simp
  moreover from Cons.prems obtain d where "parse m = Inr d" by (cases "parse m") auto
  ultimately show ?case by (simp add: successfully_parsed_def)
qed

lemma successfully_parsed_Nil: "(successfully_parsed parse found = []) = (\<forall>m \<in> set found. isl (parse m))"
proof (induction found)
  case Nil
  show ?case by (simp add: successfully_parsed_def)
next
  case (Cons m found)
  then show ?case by (cases "parse m") (simp_all add: successfully_parsed_def)
qed

lemma datetime_less_trans:
  "datetime_less a b \<Longrightarrow> datetime_less b c \<Longrightarrow> datetime_less a c"
  by (auto simp: datetime_less_def)

lemma datetime_less_total:
  fixes a b :: datetime
  shows "\<not> datetime_less a b \<Longrightarrow> \<not> datetime_less b a \<Longrightarrow> a = b"
  by (cases a; cases b) (auto simp: datetime_less_def)

lemma datetime_less_irrefl: "\<not> datetime_less a a"
  by (simp add: datetime_less_def)

lemma max_from_props:
  "max_from m ds \<in> set (m # ds) \<and> (\<forall>d \<in> set (m # ds). \<not> datetime_less (max_from m ds) d)"
proof (induction ds arbitrary: m)
  case Nil
  show ?case by (simp add: datetime_less_irrefl)
next
  case (Cons d ds)
  show ?case
  proof (cases "datetime_less m d")
    case True
    from Cons.IH [of d] have in_set: "max_from d ds \<in> set (d # ds)"
      and top: "\<forall>x \<in> set (d # ds). \<not> datetime_less (max_from d ds) x"
      by simp_all
    from top have "\<not> datetime_less (max_from d ds) d" by simp
    with True have "\<not> datetime_less (max_from d ds) m"
      by (blast intro: datetime_less_trans)
    with True in_set top show ?thesis by auto
  next
    case False
    from Cons.IH [of m] have in_set: "max_from m ds \<in> set (m # ds)"
      and top: "\<forall>x \<in> set (m # ds). \<not> datetime_less (max_from m ds) x"
      by simp_all
    from top have m: "\<not> datetime_less (max_from m ds) m" by simp
    have "\<not> datetime_less (max_from m ds) d"
    proof
      assume less: "datetime_less (max_from m ds) d"
      show False
      proof (cases "max_from m ds = m")
        case True
        with less False show False by simp
      next
        case False
        with m have "datetime_less m (max_from m ds)"
          using datetime_less_total by blast
        from this less have "datetime_less m d" by (rule datetime_less_trans)
        with \<open>\<not> datetime_less m d\<close> show False by simp
      qed
    qed
    with False in_set top show ?thesis by auto
  qed
qed

lemma py_max_latest:
  "ds \<noteq> [] \<Longrightarrow> \<exists>r. py_max ds = Inr r \<and> r \<in> set ds \<and> (\<forall>d \<in> set ds. \<not> datetime_less r d)"
proof (cases ds)
  case Nil
  assume "ds \<noteq> []"
  with Nil show ?thesis by simp
next
  case (Cons d ds')
  with max_from_props [of d ds'] show ?thesis by simp
qed

lemma collectDates_eq:
  assumes "re_compile regex = Some rx"
  shows "collectDates parse regex ls acc =
     (case map_err parse (dateMatches regex ls) of
        Inl e \<Rightarrow> Inl e
      | Inr ds \<Rightarrow> Inr (acc @ ds))"
proof (induction ls arbitrary: acc)
  case Nil
  show ?case by (simp add: dateMatches_def)
next
  case (Cons l ls)
  have f: "re_findall regex l = Inr (findall_from rx l 0 False)"
    by (simp add: re_findall_def assms)
  have m: "dateMatches regex (l # ls) = findall_from rx l 0 False @ dateMatches regex ls"
    by (simp add: dateMatches_def f)
  show ?case
    by (cases "map_err parse (findall_from rx l 0 False)"; cases "map_err parse (dateMatches regex ls)")
      (simp_all add: f m map_err_append Cons.IH)
qed

lemma dateRegex_compiles:
  assumes "dateRegex fmt = Inr regex"
  shows "\<exists>rx. re_compile regex = Some rx"
proof (cases "find (\<lambda>c. c \<in> set ''/-.'') fmt")
  case None
  from dateRegex_not_found [OF this] assms show ?thesis by simp
next
  case (Some dl)
  then have dl: "dl \<in> set ''/-.''" by (auto simp: find_Some_iff)
  from dateRegex_found [OF Some] assms have "regex = concat (map (regexPart [dl]) fmt)" by simp
  with dateRegex_compile [OF dl, of fmt] show ?thesis by simp
qed

lemma extractDate_eq:
  assumes "dateRegex (dateFormat v) = Inr regex"
  shows "extractDate v nowYear ls =
     (case map_err (dateParser (dateFormat v) nowYear) (dateMatches regex ls) of
        Inl e \<Rightarrow> Inl e
      | Inr ds \<Rightarrow> py_max ds)"
proof -
  from dateRegex_compiles [OF assms] obtain rx where rx: "re_compile regex = Some rx" ..
  let ?parse = "dateParser (dateFormat v) nowYear"
  have c: "collectDates ?parse regex ls [] =
     (case map_err ?parse (dateMatches regex ls) of Inl e \<Rightarrow> Inl e | Inr ds \<Rightarrow> Inr ds)"
    using collectDates_eq [OF rx, of ?parse ls "[]"]
    by (cases "map_err ?parse (dateMatches regex ls)") simp_all
  from assms obtain a b where s: "re_search delimRegex (dateFormat v) = Inr (Some (a, b))"
    by (cases "re_search delimRegex (dateFormat v)")
      (auto simp: dateRegex_def split: option.splits)
  from assms s have r: "py_reduce (\<lambda>s c. s @ c)
      (map (regexPart (take (b - a) (drop a (dateFormat v)))) (dateFormat v)) = Inr regex"
    by (simp add: dateRegex_def)
  have "extractDate v nowYear ls =
      (case collectDates ?parse regex ls [] of Inl e \<Rightarrow> Inl e | Inr dates \<Rightarrow> py_max dates)"
    by (simp add: extractDate_def s r Let_def dateParser_def)
  then show ?thesis
    by (cases "map_err ?parse (dateMatches regex ls)") (simp_all add: c)
qed

lemma count_list_replicate: "count_list (replicate n x) y = (if x = y then n else 0)"
  by (induction n) auto

lemma numOf_count: "numOf c fmt = int (count_list fmt c)"
  by (simp add: numOf_def py_split_length)

lemma numOf_run:
  assumes "fmt = pre @ replicate n c @ post" and "c \<notin> set pre" and "c \<notin> set post"
  shows "numOf c fmt = int n"
  using assms by (simp add: numOf_count count_list_replicate count_notin)

lemma datetime_new_year: "datetime_new y m d = Inr dt \<Longrightarrow> year dt = y"
  by (auto simp: datetime_new_def split: if_splits)

lemma parseDate_year:
  assumes "parseDate yp iY numY iM numM iD numD d = Inr dt"
  shows "py_int (yp @ py_slice d iY (iY + numY)) = Inr (year dt)"
proof -
  from assms obtain y where y: "py_int (yp @ py_slice d iY (iY + numY)) = Inr y"
    by (cases "py_int (yp @ py_slice d iY (iY + numY))") (simp_all add: parseDate_def)
  from assms y obtain m where m: "py_int (py_slice d iM (iM + numM)) = Inr m"
    by (cases "py_int (py_slice d iM (iM + numM))") (simp_all add: parseDate_def)
  from assms y m obtain dd where dd: "py_int (py_slice d iD (iD + numD)) = Inr dd"
    by (cases "py_int (py_slice d iD (iD + numD))") (simp_all add: parseDate_def)
  from assms y m dd have "datetime_new y m dd = Inr dt"
    by (simp add: parseDate_def)
  then have "year dt = y" by (rule datetime_new_year)
  with y show ?thesis by simp
qed

lemma py_slice_prefix: "py_slice xs 0 2 = take 2 xs"
  by (simp add: py_slice_def Let_def min_def)

lemma map_err_mem:
  "map_err f xs = Inr ys \<Longrightarrow> y \<in> set ys \<Longrightarrow> \<exists>x \<in> set xs. f x = Inr y"
proof (induction xs arbitrary: ys)
  case Nil
  then show ?case by simp
next
  case (Cons x xs)
  from Cons.prems(1) obtain z where z: "f x = Inr z"
    by (cases "f x") simp_all
  from Cons.prems(1) z obtain zs where zs: "map_err f xs = Inr zs"
    by (cases "map_err f xs") simp_all
  from Cons.prems(1) z zs have "ys = z # zs" by simp
  with Cons.prems(2) have "y = z \<or> y \<in> set zs" by simp
  then show ?case
  proof
    assume "y = z"
    with z show ?thesis by simp
  next
    assume "y \<in> set zs"
    from Cons.IH [OF zs this] show ?thesis by simp
  qed
qed

lemma py_max_mem: "py_max ds = Inr r \<Longrightarrow> r \<in> set ds"
proof (cases ds)
  case Nil
  assume "py_max ds = Inr r"
  with Nil show ?thesis by simp
next
  case (Cons d ds')
  assume "py_max ds = Inr r"
  with Cons max_from_props [of d ds'] show ?thesis by auto
qed

lemma float_eq_self: "float_eq x x = (x \<noteq> NaN)"
  by (simp add: float_eq_def)

section \<open>The offset validator\<close>

text \<open>
  C1. For every four integers (offsetStart, nameOffset, unitsOffset, unitCostOffset),
  isValidItem accepts exactly when each of the three offsets o satisfies
  0 <= offsetStart + o <= offsetStart, whatever the other fields of the vendor are.
  In particular, with offsetStart = 10 the offsets (-8, -8, -7) are accepted and the
  offsets (-20, 0, 0) are rejected.
\<close>

theorem isValidItem_iff_window:
  "(isValidItem \<lparr>Vendor.name = n, dateFormat = f, itemRegex = r, itemNameOffsetIndex = a,
                 unitsOffsetIndex = b, unitCostOffsetIndex = c\<rparr> s
      = ((0 \<le> s + a \<and> s + a \<le> s) \<and> (0 \<le> s + b \<and> s + b \<le> s) \<and> (0 \<le> s + c \<and> s + c \<le> s)))
   \<and> isValidItem \<lparr>Vendor.name = n, dateFormat = f, itemRegex = r, itemNameOffsetIndex = - 8,
                 unitsOffsetIndex = - 8, unitCostOffsetIndex = - 7\<rparr> 10
   \<and> \<not> isValidItem \<lparr>Vendor.name = n, dateFormat = f, itemRegex = r, itemNameOffsetIndex = - 20,
                 unitsOffsetIndex = 0, unitCostOffsetIndex = 0\<rparr> 10"
  by (simp add: isValidItem_def)

theorem isValidItem_iff_window_witness:
  "isValidItem \<lparr>Vendor.name = ''Screwfix'', dateFormat = ''DD/MM/YYYY'', itemRegex = ''x'',
      itemNameOffsetIndex = - 8, unitsOffsetIndex = - 8, unitCostOffsetIndex = - 7\<rparr> 8"
  using isValidItem_iff_window [of "''Screwfix''" "''DD/MM/YYYY''" "''x''" "- 8" "- 8" "- 7" 8]
  by simp

section \<open>The item field extractor\<close>

text \<open>
  C3. For every line that the item pattern matches and whose offsets are valid: when the
  unit-cost token split on the point has fewer than two parts, the line is passed over
  (no item, no error); otherwise the item is constructed with the cost text made of the
  first part, a point and the first two characters of the second part (cut, not
  rounded; a single character is kept as it is).  The cost token 12.345 gives the unit
  cost 12.34 (the double nearest to it) and the cost token 12 gives no item.
\<close>

theorem unit_cost_reconstruction:
  assumes "re_search (itemRegex v) line = Inr (Some m)"
    and "words = py_split (CHR '' '') line"
    and "offsetStart = int (length words) - 1"
    and "isValidItem v offsetStart"
    and "unitCostParts = py_split (CHR ''.'') (words ! nat (offsetStart + unitCostOffsetIndex v))"
  shows "(length unitCostParts < 2 \<longrightarrow> extractLine v line = Inr None) \<and>
     (2 \<le> length unitCostParts \<longrightarrow>
        extractLine v line =
          (case Item_init (py_join '' '' (py_slice words 1 (offsetStart + itemNameOffsetIndex v)))
                  (words ! nat (offsetStart + unitsOffsetIndex v))
                  (unitCostParts ! 0 @ ''.'' @ take 2 (unitCostParts ! 1)) of
             Inl e \<Rightarrow> Inl e | Inr item \<Rightarrow> Inr (Some item))) \<and>
     extractLine TOOLSTATION ''12345 Widget 3 12.345'' =
        Inr (Some \<lparr>Item.name = ''Widget'', units = 3,
                   unitCost = Finite False 6946802425218990 (- 49),
                   total = Finite False 5210101818914242 (- 47)\<rparr>) \<and>
     py_float ''12.34'' = Inr (Finite False 6946802425218990 (- 49)) \<and>
     extractLine TOOLSTATION ''12345 Widget 3 12'' = Inr None"
proof -
  have a: "extractLine TOOLSTATION ''12345 Widget 3 12.345'' =
        Inr (Some \<lparr>Item.name = ''Widget'', units = 3,
                   unitCost = Finite False 6946802425218990 (- 49),
                   total = Finite False 5210101818914242 (- 47)\<rparr>)"
    by code_simp
  have b: "py_float ''12.34'' = Inr (Finite False 6946802425218990 (- 49))"
    by code_simp
  have c: "extractLine TOOLSTATION ''12345 Widget 3 12'' = Inr None"
    by code_simp
  from extractLine_fields [OF assms] a b c show ?thesis
    by simp
qed

theorem unit_cost_reconstruction_witness:
  "extractLine TOOLSTATION ''12345 Widget 3 12.349'' =
     (case Item_init ''Widget'' ''3'' ''12.34'' of Inl e \<Rightarrow> Inl e | Inr item \<Rightarrow> Inr (Some item))
   \<and> extractLine TOOLSTATION ''12345 Widget 3 12.3'' =
     (case Item_init ''Widget'' ''3'' ''12.3'' of Inl e \<Rightarrow> Inl e | Inr item \<Rightarrow> Inr (Some item))"
proof -
  have m1: "re_search (itemRegex TOOLSTATION) ''12345 Widget 3 12.349'' = Inr (Some (0, 0))"
    by code_simp
  have w1: "[''12345'', ''Widget'', ''3'', ''12.349''] = py_split (CHR '' '') ''12345 Widget 3 12.349''"
    by code_simp
  have o1: "(3::int) = int (length [''12345'', ''Widget'', ''3'', ''12.349'']) - 1"
    by simp
  have v1: "isValidItem TOOLSTATION 3"
    by code_simp
  have p1: "[''12'', ''349''] =
      py_split (CHR ''.'') ([''12345'', ''Widget'', ''3'', ''12.349''] ! nat (3 + unitCostOffsetIndex TOOLSTATION))"
    by code_simp
  have m2: "re_search (itemRegex TOOLSTATION) ''12345 Widget 3 12.3'' = Inr (Some (0, 0))"
    by code_simp
  have w2: "[''12345'', ''Widget'', ''3'', ''12.3''] = py_split (CHR '' '') ''12345 Widget 3 12.3''"
    by code_simp
  have o2: "(3::int) = int (length [''12345'', ''Widget'', ''3'', ''12.3'']) - 1"
    by simp
  have p2: "[''12'', ''3''] =
      py_split (CHR ''.'') ([''12345'', ''Widget'', ''3'', ''12.3''] ! nat (3 + unitCostOffsetIndex TOOLSTATION))"
    by code_simp
  have n: "itemNameOffsetIndex TOOLSTATION = - 1" "unitsOffsetIndex TOOLSTATION = - 1"
    by (simp_all add: TOOLSTATION_def)
  have s: "py_slice [''12345'', ''Widget'', ''3'', ''12.349''] 1 2 = [''Widget'']"
     "py_slice [''12345'', ''Widget'', ''3'', ''12.3''] 1 2 = [''Widget'']"
    by (simp_all add: py_slice_def)
  from unit_cost_reconstruction [OF m1 w1 o1 v1 p1] unit_cost_reconstruction [OF m2 w2 o2 v1 p2]
  show ?thesis
    by (simp add: n s)
qed

section \<open>The item line matcher\<close>

text \<open>
  C4, as the specification states it: a matching line is split on whitespace and
  offsetStart is the number of tokens minus one.  The script splits on the space
  character only.  On a Toolstation line with two spaces between two words of the name
  the script sees six tokens (one of them empty) and offsetStart 5, the whitespace split
  sees five tokens and offsetStart 4, and the item names differ.
\<close>

theorem whitespace_split_counterexample:
  "re_search (itemRegex TOOLSTATION) ''12345 Big  Thing 2 1.50'' = Inr (Some (0, 0))
   \<and> py_split (CHR '' '') ''12345 Big  Thing 2 1.50'' = [''12345'', ''Big'', [], ''Thing'', ''2'', ''1.50'']
   \<and> whitespace_tokens ''12345 Big  Thing 2 1.50'' = [''12345'', ''Big'', ''Thing'', ''2'', ''1.50'']
   \<and> extractLine TOOLSTATION ''12345 Big  Thing 2 1.50'' =
        Inr (Some \<lparr>Item.name = ''Big  Thing'', units = 2,
                   unitCost = Finite False 6755399441055744 (- 52),
                   total = Finite False 6755399441055744 (- 51)\<rparr>)
   \<and> (if isValidItem TOOLSTATION (int (length (whitespace_tokens ''12345 Big  Thing 2 1.50'')) - 1)
       then extractFields TOOLSTATION (whitespace_tokens ''12345 Big  Thing 2 1.50'')
              (int (length (whitespace_tokens ''12345 Big  Thing 2 1.50'')) - 1)
       else Inr None) =
        Inr (Some \<lparr>Item.name = ''Big Thing'', units = 2,
                   unitCost = Finite False 6755399441055744 (- 52),
                   total = Finite False 6755399441055744 (- 51)\<rparr>)"
  by code_simp

text \<open>
  C4, amended: for every line that the item pattern matches, the line is split at every
  single space character (so the tokens joined by one space give the line back, no token
  holds a space, and two spaces in a row give an empty token), offsetStart is the number
  of these tokens minus one, the index of the last token, and validation and field
  extraction work on these tokens and this offsetStart.
\<close>

theorem offsetStart_from_space_split:
  assumes "re_search (itemRegex v) line = Inr (Some m)"
    and "tokens = py_split (CHR '' '') line"
    and "offsetStart = int (length tokens) - 1"
  shows "extractLine v line =
           (if isValidItem v offsetStart then extractFields v tokens offsetStart else Inr None)
     \<and> py_join '' '' tokens = line
     \<and> (\<forall>w \<in> set tokens. CHR '' '' \<notin> set w)
     \<and> 0 \<le> offsetStart
     \<and> py_get tokens offsetStart = Inr (last tokens)"
proof -
  have ne: "tokens \<noteq> []"
    using assms(2) by (simp add: py_split_not_Nil)
  then have len: "0 < length tokens" by simp
  have 1: "extractLine v line =
           (if isValidItem v offsetStart then extractFields v tokens offsetStart else Inr None)"
    using extractLine_matched [OF assms(1)] assms(2,3) by simp
  have 2: "py_join '' '' tokens = line"
    using assms(2) py_join_split [of "CHR '' ''" line] by simp
  have 3: "\<forall>w \<in> set tokens. CHR '' '' \<notin> set w"
    using assms(2) by (auto dest: py_split_no_sep)
  have 4: "0 \<le> offsetStart"
    using assms(3) len by simp
  have "nat offsetStart = length tokens - 1"
    using assms(3) len by simp
  then have "tokens ! nat offsetStart = last tokens"
    using ne by (simp add: last_conv_nth)
  moreover have "py_get tokens offsetStart = Inr (tokens ! nat offsetStart)"
    using assms(3) len by (intro py_get_in_range) simp_all
  ultimately have 5: "py_get tokens offsetStart = Inr (last tokens)" by simp
  from 1 2 3 4 5 show ?thesis by simp
qed

theorem offsetStart_from_space_split_witness:
  "extractLine TOOLSTATION ''12345 Big  Thing 2 1.50'' =
     (if isValidItem TOOLSTATION 5
      then extractFields TOOLSTATION [''12345'', ''Big'', [], ''Thing'', ''2'', ''1.50''] 5
      else Inr None)
   \<and> py_get [''12345'', ''Big'', [], ''Thing'', ''2'', ''1.50''] 5 = Inr ''1.50''"
proof -
  have m: "re_search (itemRegex TOOLSTATION) ''12345 Big  Thing 2 1.50'' = Inr (Some (0, 0))"
    by code_simp
  have w: "[''12345'', ''Big'', [], ''Thing'', ''2'', ''1.50''] = py_split (CHR '' '') ''12345 Big  Thing 2 1.50''"
    by code_simp
  have o: "(5::int) = int (length [''12345'', ''Big'', [], ''Thing'', ''2'', ''1.50'']) - 1"
    by simp
  from offsetStart_from_space_split [OF m w o] show ?thesis
    by simp
qed

section \<open>Fields that are not numbers\<close>

text \<open>
  C7. For every line that the item pattern matches, whose offsets are valid and whose
  cost token has a point: when the units token is not an integer for \<open>int()\<close> or the
  cost text is not a number for \<open>float()\<close>, the construction of the item raises
  ValueError, the line is not passed over, and the error ends \<open>extractItems\<close> and the
  construction of the order for every document that holds the line.
\<close>

theorem nonnumeric_field_is_fatal:
  assumes "re_search (itemRegex v) line = Inr (Some m)"
    and "words = py_split (CHR '' '') line"
    and "offsetStart = int (length words) - 1"
    and "isValidItem v offsetStart"
    and "unitCostParts = py_split (CHR ''.'') (words ! nat (offsetStart + unitCostOffsetIndex v))"
    and "1 < length unitCostParts"
    and "isl (py_int (words ! nat (offsetStart + unitsOffsetIndex v)))
         \<or> isl (py_float (unitCostParts ! 0 @ ''.'' @ take 2 (unitCostParts ! 1)))"
  shows "Item_init (py_join '' '' (py_slice words 1 (offsetStart + itemNameOffsetIndex v)))
            (words ! nat (offsetStart + unitsOffsetIndex v))
            (unitCostParts ! 0 @ ''.'' @ take 2 (unitCostParts ! 1)) = Inl ValueError
     \<and> extractLine v line = Inl ValueError
     \<and> (\<forall>ls. line \<in> set ls \<longrightarrow> isl (extractItems v ls) \<and> (\<forall>nowYear. isl (Order_init v nowYear ls)))"
proof -
  let ?n = "py_join '' '' (py_slice words 1 (offsetStart + itemNameOffsetIndex v))"
  let ?u = "words ! nat (offsetStart + unitsOffsetIndex v)"
  let ?c = "unitCostParts ! 0 @ ''.'' @ take 2 (unitCostParts ! 1)"
  from assms(7) have init: "Item_init ?n ?u ?c = Inl ValueError"
    by (auto intro: Item_init_int_error Item_init_float_error)
  from extractLine_fields [OF assms(1-5)] assms(6) init
  have line: "extractLine v line = Inl ValueError" by simp
  have "isl (extractItems v ls) \<and> (\<forall>nowYear. isl (Order_init v nowYear ls))" if "line \<in> set ls" for ls
  proof -
    from line have "isl (extractLine v line)" by simp
    from extractItems_loop_error [OF that this]
    have items: "isl (extractItems v ls)" by (simp add: extractItems_def)
    then obtain e where e: "extractItems v ls = Inl e" by (cases "extractItems v ls") auto
    have "isl (Order_init v nowYear ls)" for nowYear
      by (cases "extractDate v nowYear ls") (simp_all add: Order_init_def e)
    with items show ?thesis by simp
  qed
  with init line show ?thesis by blast
qed

theorem nonnumeric_field_is_fatal_witness:
  "extractLine SCREWFIX ''123AB 1.20 b c d e f g h'' = Inl ValueError
   \<and> isl (extractItems SCREWFIX [''Invoice 01/02/2023'', ''123AB 1.20 b c d e f g h''])
   \<and> isl (Order_init SCREWFIX 2026 [''Invoice 01/02/2023'', ''123AB 1.20 b c d e f g h''])"
proof -
  let ?ws = "[''123AB'', ''1.20'', ''b'', ''c'', ''d'', ''e'', ''f'', ''g'', ''h'']"
  have m: "re_search (itemRegex SCREWFIX) ''123AB 1.20 b c d e f g h'' = Inr (Some (0, 0))"
    by code_simp
  have w: "?ws = py_split (CHR '' '') ''123AB 1.20 b c d e f g h''"
    by code_simp
  have o: "(8::int) = int (length ?ws) - 1"
    by simp
  have v: "isValidItem SCREWFIX 8"
    by code_simp
  have p: "[''1'', ''20''] = py_split (CHR ''.'') (?ws ! nat (8 + unitCostOffsetIndex SCREWFIX))"
    by code_simp
  have l: "1 < length [''1'', ''20'']"
    by simp
  have u: "isl (py_int (?ws ! nat (8 + unitsOffsetIndex SCREWFIX)))
      \<or> isl (py_float ([''1'', ''20''] ! 0 @ ''.'' @ take 2 ([''1'', ''20''] ! 1)))"
    by code_simp
  from nonnumeric_field_is_fatal [OF m w o v p l u] show ?thesis
    by simp
qed

section \<open>The total of an item\<close>

text \<open>
  C8, as stated: the total of an item always equals units * unitCost and can never be
  set or changed apart from them.  The total is a plain attribute that the constructor
  stores once.  For the item made from 5 and 1.20 (total 6.0), the assignment
  \<open>item.total = 1.0\<close> is accepted and leaves the product at 6.0, and the assignment
  \<open>item.units = 7\<close> makes the product 8.4 and leaves the total at 6.0.  And for the units
  0 and a cost token of 310 digits the unit cost is infinite and the total is NaN, which
  is not equal to the product, nor to itself, as Python compares floats.
\<close>

theorem item_total_out_of_sync_counterexample:
  "Item_init ''Screw'' ''5'' ''1.20'' =
     Inr \<lparr>Item.name = ''Screw'', units = 5,
            unitCost = Finite False 5404319552844595 (- 52),
            total = Finite False 6755399441055744 (- 50)\<rparr>
   \<and> total (Item_set_total \<lparr>Item.name = ''Screw'', units = 5,
            unitCost = Finite False 5404319552844595 (- 52),
            total = Finite False 6755399441055744 (- 50)\<rparr> (Finite False 4503599627370496 (- 52))) =
        Finite False 4503599627370496 (- 52)
   \<and> int_mul_float (units (Item_set_total \<lparr>Item.name = ''Screw'', units = 5,
            unitCost = Finite False 5404319552844595 (- 52),
            total = Finite False 6755399441055744 (- 50)\<rparr> (Finite False 4503599627370496 (- 52))))
        (unitCost (Item_set_total \<lparr>Item.name = ''Screw'', units = 5,
            unitCost = Finite False 5404319552844595 (- 52),
            total = Finite False 6755399441055744 (- 50)\<rparr> (Finite False 4503599627370496 (- 52)))) =
        Inr (Finite False 6755399441055744 (- 50))
   \<and> total (Item_set_units \<lparr>Item.name = ''Screw'', units = 5,
            unitCost = Finite False 5404319552844595 (- 52),
            total = Finite False 6755399441055744 (- 50)\<rparr> 7) = Finite False 6755399441055744 (- 50)
   \<and> int_mul_float (units (Item_set_units \<lparr>Item.name = ''Screw'', units = 5,
            unitCost = Finite False 5404319552844595 (- 52),
            total = Finite False 6755399441055744 (- 50)\<rparr> 7)) (unitCost (Item_set_units \<lparr>Item.name = ''Screw'', units = 5,
            unitCost = Finite False 5404319552844595 (- 52),
            total = Finite False 6755399441055744 (- 50)\<rparr> 7)) =
        Inr (Finite False 4728779608739021 (- 49))
   \<and> Item_init ''Bolt'' ''0'' (CHR ''1'' # replicate 309 (CHR ''0'') @ ''.0'') =
        Inr \<lparr>Item.name = ''Bolt'', units = 0, unitCost = Infinity False, total = NaN\<rparr>
   \<and> int_mul_float 0 (Infinity False) = Inr NaN
   \<and> \<not> float_eq NaN NaN"
  by code_simp

text \<open>
  C8, amended: for every item as constructed, the total is the value of
  units * unitCost, the product of an int and a float computed once by the constructor
  (units 5 and unit cost 1.20 give the total 6.0); the script never assigns to an item
  afterwards, so every item in the list that \<open>extractItems\<close> returns and every item of a
  constructed order still has that value as its total.  The comparison of the total with
  the product is true exactly when the product is not NaN.  The class itself does not
  keep the total in step: it is a stored attribute, not recomputed.
\<close>

theorem item_total_set_at_construction:
  "(Item_init n u c = Inr it \<longrightarrow>
      py_int u = Inr (units it) \<and> py_float c = Inr (unitCost it) \<and>
      int_mul_float (units it) (unitCost it) = Inr (total it))
   \<and> (extractItems v ls = Inr its \<longrightarrow>
        (\<forall>x \<in> set its. int_mul_float (units x) (unitCost x) = Inr (total x)))
   \<and> (Order_init v nowYear ls = Inr ord \<longrightarrow>
        (\<forall>x \<in> set (items ord). int_mul_float (units x) (unitCost x) = Inr (total x)))
   \<and> (int_mul_float (units x) (unitCost x) = Inr p \<and> total x = p \<longrightarrow>
        float_eq (total x) p = (p \<noteq> NaN))
   \<and> Item_init ''Screw'' ''5'' ''1.20'' =
        Inr \<lparr>Item.name = ''Screw'', units = 5,
             unitCost = Finite False 5404319552844595 (- 52),
             total = Finite False (6 * 2 ^ 50) (- 50)\<rparr>"
proof -
  have 1: "Item_init n u c = Inr it \<longrightarrow>
      py_int u = Inr (units it) \<and> py_float c = Inr (unitCost it) \<and>
      int_mul_float (units it) (unitCost it) = Inr (total it)"
    by (simp add: Item_init_fields)
  have line: "int_mul_float (units x) (unitCost x) = Inr (total x)"
    if "extractLine v l = Inr (Some x)" for l x
  proof -
    from extractLine_item [OF that] obtain n' u' c' where "Item_init n' u' c' = Inr x"
      by blast
    then show ?thesis by (rule Item_init_fields)
  qed
  have items: "\<forall>x \<in> set its'. int_mul_float (units x) (unitCost x) = Inr (total x)"
    if "extractItems v ls = Inr its'" for its'
  proof (rule extractItems_loop_inv)
    from that show "extractItems_loop v ls [] = Inr its'"
      by (simp add: extractItems_def)
    show "\<forall>x \<in> set []. int_mul_float (units x) (unitCost x) = Inr (total x)"
      by simp
    fix l x
    assume "extractLine v l = Inr (Some x)"
    then show "int_mul_float (units x) (unitCost x) = Inr (total x)"
      by (rule line)
  qed
  have 2: "extractItems v ls = Inr its \<longrightarrow>
        (\<forall>x \<in> set its. int_mul_float (units x) (unitCost x) = Inr (total x))"
    using items by blast
  have 3: "Order_init v nowYear ls = Inr ord \<longrightarrow>
        (\<forall>x \<in> set (items ord). int_mul_float (units x) (unitCost x) = Inr (total x))"
  proof
    assume ord: "Order_init v nowYear ls = Inr ord"
    then obtain d where d: "extractDate v nowYear ls = Inr d"
      by (cases "extractDate v nowYear ls") (simp_all add: Order_init_def)
    from ord d obtain its' where its': "extractItems v ls = Inr its'"
      by (cases "extractItems v ls") (simp_all add: Order_init_def)
    from ord d its' have "items ord = its'"
      by (auto simp: Order_init_def)
    with items [OF its']
    show "\<forall>x \<in> set (items ord). int_mul_float (units x) (unitCost x) = Inr (total x)"
      by simp
  qed
  have 4: "Item_init ''Screw'' ''5'' ''1.20'' =
        Inr \<lparr>Item.name = ''Screw'', units = 5,
             unitCost = Finite False 5404319552844595 (- 52),
             total = Finite False (6 * 2 ^ 50) (- 50)\<rparr>"
    by code_simp
  have 5: "int_mul_float (units x) (unitCost x) = Inr p \<and> total x = p \<longrightarrow>
        float_eq (total x) p = (p \<noteq> NaN)"
    by (auto simp: float_eq_self)
  from 1 2 3 4 5 show ?thesis by blast
qed

theorem item_total_set_at_construction_witness:
  "int_mul_float 5 (Finite False 5404319552844595 (- 52)) = Inr (Finite False (6 * 2 ^ 50) (- 50))
   \<and> int_mul_float 3 (Finite False 6946802425218990 (- 49)) =
       Inr (Finite False 5210101818914242 (- 47))
   \<and> float_eq (Finite False (6 * 2 ^ 50) (- 50)) (Finite False (6 * 2 ^ 50) (- 50))"
proof -
  let ?it = "\<lparr>Item.name = ''Screw'', units = 5,
             unitCost = Finite False 5404319552844595 (- 52),
             total = Finite False (6 * 2 ^ 50) (- 50)\<rparr>"
  let ?w = "\<lparr>Item.name = ''Widget'', units = 3,
                     unitCost = Finite False 6946802425218990 (- 49),
                     total = Finite False 5210101818914242 (- 47)\<rparr>"
  let ?ls = "[''Order 2023-01-05'', ''12345 Widget 3 12.345'']"
  let ?ord = "\<lparr>date = \<lparr>year = 2023, month = 1, day = 5\<rparr>, items = [?w],
               textLines = ?ls, vendor = TOOLSTATION\<rparr>"
  have a: "Item_init ''Screw'' ''5'' ''1.20'' = Inr ?it"
    by code_simp
  have b: "extractItems TOOLSTATION ?ls = Inr [?w]"
    by code_simp
  have c: "Order_init TOOLSTATION 2026 ?ls = Inr ?ord"
    by code_simp
  note w = item_total_set_at_construction [of "''Screw''" "''5''" "''1.20''" ?it TOOLSTATION ?ls
      "[?w]" 2026 ?ord ?it "Finite False (6 * 2 ^ 50) (- 50)"]
  from w a have 1: "int_mul_float (units ?it) (unitCost ?it) = Inr (total ?it)"
    by blast
  from w b have 2: "\<forall>x \<in> set [?w]. int_mul_float (units x) (unitCost x) = Inr (total x)"
    by blast
  from w c have 3: "\<forall>x \<in> set (items ?ord). int_mul_float (units x) (unitCost x) = Inr (total x)"
    by blast
  from 1 have p: "int_mul_float (units ?it) (unitCost ?it) = Inr (Finite False (6 * 2 ^ 50) (- 50))
      \<and> total ?it = Finite False (6 * 2 ^ 50) (- 50)"
    by simp
  from w p have "float_eq (total ?it) (Finite False (6 * 2 ^ 50) (- 50)) =
      (Finite False (6 * 2 ^ 50) (- 50) \<noteq> NaN)"
    by blast
  then have 4: "float_eq (Finite False (6 * 2 ^ 50) (- 50)) (Finite False (6 * 2 ^ 50) (- 50))"
    by simp
  from 1 2 3 4 show ?thesis by simp
qed

section \<open>Items with an empty name\<close>

text \<open>
  C9, as stated: a line that the item pattern matches, with valid offsets, a point in
  its cost token and offsetStart + nameOffset at most 1 always gives an item with an
  empty name.  A Screwfix line of nine tokens whose first token is the code 123AB
  satisfies all of this, yet no item is made: the units token is the code, \<open>int()\<close>
  rejects it and \<open>extractItems\<close> raises ValueError.
\<close>

theorem empty_name_item_counterexample:
  "re_search (itemRegex SCREWFIX) ''123AB 1.20 b c d e f g h'' = Inr (Some (0, 0))
   \<and> py_split (CHR '' '') ''123AB 1.20 b c d e f g h'' =
        [''123AB'', ''1.20'', ''b'', ''c'', ''d'', ''e'', ''f'', ''g'', ''h'']
   \<and> isValidItem SCREWFIX 8
   \<and> py_split (CHR ''.'') ''1.20'' = [''1'', ''20'']
   \<and> 8 + itemNameOffsetIndex SCREWFIX \<le> 1
   \<and> extractLine SCREWFIX ''123AB 1.20 b c d e f g h'' = Inl ValueError
   \<and> extractItems SCREWFIX [''123AB 1.20 b c d e f g h''] = Inl ValueError"
  by code_simp

text \<open>
  C9, amended: for every such line the name slice is empty and the line is not passed
  over: the item is constructed with the empty string as its name, so the line gives an
  item with an empty name whenever the construction succeeds, and the error of the
  construction otherwise.  A Screwfix line of nine tokens whose first token is 12345 and
  whose second token is 1.20 gives an item with an empty name.
\<close>

theorem empty_name_item:
  assumes "re_search (itemRegex v) line = Inr (Some m)"
    and "words = py_split (CHR '' '') line"
    and "offsetStart = int (length words) - 1"
    and "isValidItem v offsetStart"
    and "unitCostParts = py_split (CHR ''.'') (words ! nat (offsetStart + unitCostOffsetIndex v))"
    and "1 < length unitCostParts"
    and "offsetStart + itemNameOffsetIndex v \<le> 1"
  shows "py_slice words 1 (offsetStart + itemNameOffsetIndex v) = []
     \<and> extractLine v line =
          (case Item_init [] (words ! nat (offsetStart + unitsOffsetIndex v))
                  (unitCostParts ! 0 @ ''.'' @ take 2 (unitCostParts ! 1)) of
             Inl e \<Rightarrow> Inl e | Inr item \<Rightarrow> Inr (Some item))
     \<and> extractLine v line \<noteq> Inr None
     \<and> (\<forall>r. extractLine v line = Inr r \<longrightarrow> (\<exists>item. r = Some item \<and> Item.name item = []))"
proof -
  let ?u = "words ! nat (offsetStart + unitsOffsetIndex v)"
  let ?c = "unitCostParts ! 0 @ ''.'' @ take 2 (unitCostParts ! 1)"
  from isValidItem_bounds [OF assms(4)] have "0 \<le> offsetStart + itemNameOffsetIndex v"
    by simp
  with assms(7) have sl: "py_slice words 1 (offsetStart + itemNameOffsetIndex v) = []"
    by (simp add: py_slice_def Let_def min_def)
  from extractLine_fields [OF assms(1-5)] assms(6) sl
  have line: "extractLine v line =
      (case Item_init [] ?u ?c of Inl e \<Rightarrow> Inl e | Inr item \<Rightarrow> Inr (Some item))"
    by simp
  have ne: "extractLine v line \<noteq> Inr None"
    unfolding line by (cases "Item_init [] ?u ?c") simp_all
  have nm: "\<exists>item. r = Some item \<and> Item.name item = []" if r: "extractLine v line = Inr r" for r
  proof (cases "Item_init [] ?u ?c")
    case (Inl e)
    with r line show ?thesis by simp
  next
    case (Inr item)
    then have "Item.name item = []" by (rule Item_init_fields)
    with r line Inr show ?thesis by auto
  qed
  from sl line ne nm show ?thesis by blast
qed

theorem empty_name_item_witness:
  "extractLine SCREWFIX ''12345 1.20 b c d e f g h'' =
     Inr (Some \<lparr>Item.name = [], units = 12345,
                unitCost = Finite False 5404319552844595 (- 52),
                total = Finite False 8144082626936832 (- 39)\<rparr>)"
proof -
  let ?ws = "[''12345'', ''1.20'', ''b'', ''c'', ''d'', ''e'', ''f'', ''g'', ''h'']"
  have m: "re_search (itemRegex SCREWFIX) ''12345 1.20 b c d e f g h'' = Inr (Some (0, 0))"
    by code_simp
  have w: "?ws = py_split (CHR '' '') ''12345 1.20 b c d e f g h''"
    by code_simp
  have o: "(8::int) = int (length ?ws) - 1"
    by simp
  have v: "isValidItem SCREWFIX 8"
    by code_simp
  have p: "[''1'', ''20''] = py_split (CHR ''.'') (?ws ! nat (8 + unitCostOffsetIndex SCREWFIX))"
    by code_simp
  have l: "1 < length [''1'', ''20'']"
    by simp
  have n: "8 + itemNameOffsetIndex SCREWFIX \<le> 1"
    by code_simp
  have i: "Item_init [] ''12345'' ''1.20'' =
     Inr \<lparr>Item.name = [], units = 12345,
                unitCost = Finite False 5404319552844595 (- 52),
                total = Finite False 8144082626936832 (- 39)\<rparr>"
    by code_simp
  have u: "unitsOffsetIndex SCREWFIX = - 8"
    by (simp add: SCREWFIX_def)
  from empty_name_item [OF m w o v p l n] i u show ?thesis
    by simp
qed

section \<open>The date pattern\<close>

text \<open>
  C5. For every date format that holds one of the characters /, - and . (the first of
  them is the delimiter), the pattern text that \<open>extractDate\<close> builds is, character by
  character of the format in order, the escaped delimiter for the delimiter and the
  digit class for every other character.  A string matches this pattern as a whole
  exactly when it is as long as the format, has the delimiter where the format has it
  and a digit everywhere else; every match that \<open>re.findall\<close> returns has this shape.
  This is the pattern that \<open>extractDate\<close> searches with: for a vendor with this format
  \<open>extractDate\<close> parses the matches of this pattern in all the lines and takes the
  latest date, so every date it returns is parsed from a text of this shape.
\<close>

theorem date_pattern_skeleton:
  assumes "find (\<lambda>c. c \<in> set ''/-.'') fmt = Some dl"
    and "regex = concat (map (\<lambda>c. if c = dl then [bslash, dl] else [bslash, CHR ''d'']) fmt)"
  shows "dateRegex fmt = Inr regex
     \<and> re_compile regex = Some (seq (map (\<lambda>c. Atom (if c = dl then Lit dl else Digit)) fmt))
     \<and> (\<forall>s. re_fullmatch regex s =
              Inr (length s = length fmt \<and>
                   (\<forall>i < length fmt. if fmt ! i = dl then s ! i = dl else isdigit (s ! i))))
     \<and> (\<forall>s. (re_findall regex s = Inr [s]) =
              (length s = length fmt \<and>
               (\<forall>i < length fmt. if fmt ! i = dl then s ! i = dl else isdigit (s ! i))))
     \<and> (\<forall>line found m. re_findall regex line = Inr found \<and> m \<in> set found \<longrightarrow>
              length m = length fmt \<and>
              (\<forall>i < length fmt. if fmt ! i = dl then m ! i = dl else isdigit (m ! i)))
     \<and> (\<forall>v nowYear ls. dateFormat v = fmt \<longrightarrow>
           extractDate v nowYear ls =
             (case map_err (dateParser fmt nowYear) (dateMatches regex ls) of
                Inl e \<Rightarrow> Inl e | Inr ds \<Rightarrow> py_max ds))
     \<and> (\<forall>v nowYear ls d. dateFormat v = fmt \<and> extractDate v nowYear ls = Inr d \<longrightarrow>
           (\<exists>m \<in> set (dateMatches regex ls).
               dateParser fmt nowYear m = Inr d \<and> length m = length fmt \<and>
               (\<forall>i < length fmt. if fmt ! i = dl then m ! i = dl else isdigit (m ! i))))"
proof -
  define as where "as = map (patom dl) fmt"
  define r where "r = seq (map Atom as)"
  have len_as: "length as = length fmt"
    by (simp add: as_def)
  have rm: "rmatch r p s =
      (if length fmt \<le> length s \<and> list_all2 atom_ok as (take (length fmt) s)
       then [length fmt] else [])" for p s
    unfolding r_def using rmatch_seq_atoms [of as p s] by (simp only: len_as)
  have skel: "(length s = length fmt \<and> list_all2 atom_ok as s) =
      (length s = length fmt \<and>
       (\<forall>i < length fmt. if fmt ! i = dl then s ! i = dl else isdigit (s ! i)))" for s
    unfolding as_def by (rule skeleton_conv)
  from assms(1) have dl: "dl \<in> set ''/-.''" and ne: "fmt \<noteq> []"
    by (auto simp: find_Some_iff)
  have parts: "regexPart [dl] = (\<lambda>c. if c = dl then [bslash, dl] else [bslash, CHR ''d''])"
    by (auto simp: regexPart_def fun_eq_iff)
  have regex: "regex = concat (map (regexPart [dl]) fmt)"
    by (simp only: assms(2) parts)
  have 1: "dateRegex fmt = Inr regex"
    by (simp only: regex dateRegex_found [OF assms(1)])
  have r_eq: "r = seq (map (\<lambda>c. Atom (patom dl c)) fmt)"
    by (simp add: r_def as_def comp_def)
  have comp: "re_compile regex = Some r"
    by (simp only: regex dateRegex_compile [OF dl] r_eq)
  have 2: "re_compile regex = Some (seq (map (\<lambda>c. Atom (if c = dl then Lit dl else Digit)) fmt))"
    using comp by (simp add: r_eq patom_def)
  have full: "re_fullmatch regex s =
      Inr (length s = length fmt \<and>
           (\<forall>i < length fmt. if fmt ! i = dl then s ! i = dl else isdigit (s ! i)))" for s
  proof -
    have "(length s \<in> set (rmatch r 0 s)) = (length s = length fmt \<and> list_all2 atom_ok as s)"
      by (auto simp: rm)
    then show ?thesis
      by (simp add: re_fullmatch_def comp skel)
  qed
  have mem: "length m = length fmt \<and>
      (\<forall>i < length fmt. if fmt ! i = dl then m ! i = dl else isdigit (m ! i))"
    if f: "re_findall regex line = Inr found" and m: "m \<in> set found" for line found m
  proof -
    from f m have "m \<in> set (findall_from r line 0 False)"
      by (auto simp: re_findall_def comp)
    from findall_member [OF this] obtain q k
      where k: "k \<in> set (rmatch r q (drop q line))" and mq: "m = take k (drop q line)"
      by blast
    from k have kn: "k = length fmt" and le: "length fmt \<le> length (drop q line)"
      and all: "list_all2 atom_ok as (take (length fmt) (drop q line))"
      by (simp_all add: rm split: if_splits)
    from mq kn le have "length m = length fmt" by simp
    moreover from mq kn all have "list_all2 atom_ok as m" by simp
    ultimately show ?thesis
      using skel [of m] by simp
  qed
  have whole: "(re_findall regex s = Inr [s]) =
      (length s = length fmt \<and>
       (\<forall>i < length fmt. if fmt ! i = dl then s ! i = dl else isdigit (s ! i)))" for s
  proof
    assume "re_findall regex s = Inr [s]"
    then show "length s = length fmt \<and>
       (\<forall>i < length fmt. if fmt ! i = dl then s ! i = dl else isdigit (s ! i))"
      by (rule mem) simp
  next
    assume "length s = length fmt \<and>
       (\<forall>i < length fmt. if fmt ! i = dl then s ! i = dl else isdigit (s ! i))"
    then have len: "length s = length as" and all: "list_all2 atom_ok as s"
      using skel [of s] by (simp_all add: len_as)
    from ne have "as \<noteq> []" by (simp add: as_def)
    from findall_whole [OF this len all] show "re_findall regex s = Inr [s]"
      by (simp add: re_findall_def comp r_def)
  qed
  have run: "extractDate v nowYear ls =
      (case map_err (dateParser fmt nowYear) (dateMatches regex ls) of
         Inl e \<Rightarrow> Inl e | Inr ds \<Rightarrow> py_max ds)"
    if "dateFormat v = fmt" for v nowYear ls
    using extractDate_eq [of v regex nowYear ls] 1 that by simp
  have from_match: "\<exists>m \<in> set (dateMatches regex ls).
      dateParser fmt nowYear m = Inr d \<and> length m = length fmt \<and>
      (\<forall>i < length fmt. if fmt ! i = dl then m ! i = dl else isdigit (m ! i))"
    if v: "dateFormat v = fmt" and d: "extractDate v nowYear ls = Inr d" for v nowYear ls d
  proof -
    from run [OF v, of nowYear ls] d
    obtain ds where ds: "map_err (dateParser fmt nowYear) (dateMatches regex ls) = Inr ds"
      and mx: "py_max ds = Inr d"
      by (cases "map_err (dateParser fmt nowYear) (dateMatches regex ls)") simp_all
    from mx have "d \<in> set ds" by (rule py_max_mem)
    from map_err_mem [OF ds this] obtain m
      where m: "m \<in> set (dateMatches regex ls)" and p: "dateParser fmt nowYear m = Inr d"
      by blast
    from m obtain l where "m \<in> set (findall_from r l 0 False)"
      by (auto simp: dateMatches_def re_findall_def comp)
    then have "re_findall regex l = Inr (findall_from r l 0 False)"
      and "m \<in> set (findall_from r l 0 False)"
      by (simp_all add: re_findall_def comp)
    then have "length m = length fmt \<and>
      (\<forall>i < length fmt. if fmt ! i = dl then m ! i = dl else isdigit (m ! i))"
      by (rule mem)
    with m p show ?thesis by blast
  qed
  from 1 2 full whole mem run from_match show ?thesis by blast
qed

theorem date_pattern_skeleton_witness:
  "dateRegex ''DD/MM/YYYY'' =
     Inr (concat (map (\<lambda>c. if c = CHR ''/'' then [bslash, CHR ''/''] else [bslash, CHR ''d'']) ''DD/MM/YYYY''))
   \<and> re_fullmatch
        (concat (map (\<lambda>c. if c = CHR ''/'' then [bslash, CHR ''/''] else [bslash, CHR ''d'']) ''DD/MM/YYYY''))
        ''15/03/2023'' = Inr True
   \<and> re_findall
        (concat (map (\<lambda>c. if c = CHR ''/'' then [bslash, CHR ''/''] else [bslash, CHR ''d'']) ''DD/MM/YYYY''))
        ''15-03-2023'' \<noteq> Inr [''15-03-2023'']
   \<and> extractDate SCREWFIX 2026 [''Order date 01/02/2023'', ''ref 12-03-2023''] =
        Inr \<lparr>year = 2023, month = 2, day = 1\<rparr>"
proof -
  let ?R = "concat (map (\<lambda>c. if c = CHR ''/'' then [bslash, CHR ''/''] else [bslash, CHR ''d'']) ''DD/MM/YYYY'')"
  have f: "find (\<lambda>c. c \<in> set ''/-.'') ''DD/MM/YYYY'' = Some (CHR ''/'')"
    by simp
  have a: "re_findall ?R ''15/03/2023'' = Inr [''15/03/2023'']"
    by code_simp
  have b: "re_fullmatch ?R ''15-03-2023'' = Inr False"
    by code_simp
  let ?A = "length ''15/03/2023'' = length ''DD/MM/YYYY'' \<and>
      (\<forall>i < length ''DD/MM/YYYY''.
          if ''DD/MM/YYYY'' ! i = CHR ''/'' then ''15/03/2023'' ! i = CHR ''/''
          else isdigit (''15/03/2023'' ! i))"
  let ?B = "length ''15-03-2023'' = length ''DD/MM/YYYY'' \<and>
      (\<forall>i < length ''DD/MM/YYYY''.
          if ''DD/MM/YYYY'' ! i = CHR ''/'' then ''15-03-2023'' ! i = CHR ''/''
          else isdigit (''15-03-2023'' ! i))"
  note w = date_pattern_skeleton [OF f refl]
  from w have 1: "dateRegex ''DD/MM/YYYY'' = Inr ?R"
    by blast
  from w a have "?A"
    by blast
  then have A: "?A = True"
    by (rule eqTrueI)
  from w have "re_fullmatch ?R ''15/03/2023'' = Inr ?A"
    by blast
  then have 2: "re_fullmatch ?R ''15/03/2023'' = Inr True"
    unfolding A .
  from w have fb: "re_fullmatch ?R ''15-03-2023'' = Inr ?B"
    by blast
  from fb [symmetric] b have "Inr ?B = (Inr False :: error + bool)"
    by (rule trans)
  then have "\<not> ?B"
    by (simp only: sum.inject simp_thms)
  with w have 3: "re_findall ?R ''15-03-2023'' \<noteq> Inr [''15-03-2023'']"
    by blast
  have v: "dateFormat SCREWFIX = ''DD/MM/YYYY''"
    by (simp add: SCREWFIX_def)
  have e: "(case map_err (dateParser ''DD/MM/YYYY'' 2026)
                 (dateMatches ?R [''Order date 01/02/2023'', ''ref 12-03-2023'']) of
              Inl e \<Rightarrow> Inl e | Inr ds \<Rightarrow> py_max ds) =
      Inr \<lparr>year = 2023, month = 2, day = 1\<rparr>"
    by code_simp
  from w v have x: "extractDate SCREWFIX 2026 [''Order date 01/02/2023'', ''ref 12-03-2023''] =
      (case map_err (dateParser ''DD/MM/YYYY'' 2026)
                 (dateMatches ?R [''Order date 01/02/2023'', ''ref 12-03-2023'']) of
              Inl e \<Rightarrow> Inl e | Inr ds \<Rightarrow> py_max ds)"
    by blast
  from x e have 4: "extractDate SCREWFIX 2026 [''Order date 01/02/2023'', ''ref 12-03-2023''] =
      Inr \<lparr>year = 2023, month = 2, day = 1\<rparr>"
    by (rule trans)
  from 1 2 3 4 show ?thesis by blast
qed

section \<open>The resolved date\<close>

text \<open>
  C2, as stated: \<open>extractDate\<close> fails exactly when the sequence of parsed dates is empty.
  For Screwfix and the lines "Order date 01/02/2023" and "Ref 99/99/9999" both texts match
  the pattern, the first parses to 2023-02-01, so the sequence of parsed dates is not
  empty, and \<open>extractDate\<close> raises ValueError for the second.
\<close>

theorem extractDate_unparsed_match_counterexample:
  "dateRegex (dateFormat SCREWFIX) = Inr (concat (map (regexPart ''/'') ''DD/MM/YYYY''))
   \<and> dateMatches (concat (map (regexPart ''/'') ''DD/MM/YYYY''))
        [''Order date 01/02/2023'', ''Ref 99/99/9999''] = [''01/02/2023'', ''99/99/9999'']
   \<and> successfully_parsed (dateParser (dateFormat SCREWFIX) 2026) [''01/02/2023'', ''99/99/9999'']
        = [\<lparr>year = 2023, month = 2, day = 1\<rparr>]
   \<and> extractDate SCREWFIX 2026 [''Order date 01/02/2023'', ''Ref 99/99/9999''] = Inl ValueError"
  by code_simp

text \<open>
  C2, amended: for every vendor whose date format has a delimiter and for every
  document, \<open>extractDate\<close> fails exactly when no text of the document matches the date
  pattern or some match does not parse to a date (as 99/99/9999 does not); no default
  date is substituted.  When there are matches and all of them parse, the order date is
  the latest of the parsed dates.
\<close>

theorem extractDate_latest_or_error:
  assumes "dateRegex (dateFormat v) = Inr regex"
    and "found = dateMatches regex ls"
    and "parse = dateParser (dateFormat v) nowYear"
  shows "(isl (extractDate v nowYear ls) = (found = [] \<or> (\<exists>m \<in> set found. isl (parse m))))
     \<and> (found \<noteq> [] \<and> (\<forall>m \<in> set found. \<not> isl (parse m)) \<longrightarrow>
          (\<exists>r. extractDate v nowYear ls = Inr r
               \<and> r \<in> set (successfully_parsed parse found)
               \<and> (\<forall>d \<in> set (successfully_parsed parse found). \<not> datetime_less r d)))"
proof -
  have eq: "extractDate v nowYear ls =
      (case map_err parse found of Inl e \<Rightarrow> Inl e | Inr ds \<Rightarrow> py_max ds)"
    using extractDate_eq [OF assms(1)] assms(2,3) by simp
  show ?thesis
  proof (cases "\<exists>m \<in> set found. isl (parse m)")
    case True
    then have "isl (map_err parse found)" by (simp add: map_err_isl)
    then obtain e where "map_err parse found = Inl e" by (cases "map_err parse found") auto
    with eq True show ?thesis by auto
  next
    case False
    then have all: "\<forall>m \<in> set found. \<not> isl (parse m)" by simp
    from map_err_all_parsed [OF all] eq
    have ex: "extractDate v nowYear ls = py_max (successfully_parsed parse found)" by simp
    show ?thesis
    proof (cases "found = []")
      case True
      with ex False show ?thesis by (simp add: successfully_parsed_def)
    next
      case ne: False
      with all have "successfully_parsed parse found \<noteq> []"
        by (cases found) (auto simp: successfully_parsed_Nil)
      from py_max_latest [OF this] ex ne False show ?thesis by auto
    qed
  qed
qed

theorem extractDate_latest_or_error_witness:
  "extractDate SCREWFIX 2026 [''Order date 01/02/2023'', ''Due 15/03/2023''] =
      Inr \<lparr>year = 2023, month = 3, day = 15\<rparr>
   \<and> isl (extractDate SCREWFIX 2026 [''no date here''])
   \<and> isl (extractDate SCREWFIX 2026 [''Order date 01/02/2023'', ''Ref 99/99/9999''])"
proof -
  let ?R = "concat (map (regexPart ''/'') ''DD/MM/YYYY'')"
  let ?P = "dateParser (dateFormat SCREWFIX) 2026"
  have r: "dateRegex (dateFormat SCREWFIX) = Inr ?R"
    by code_simp
  have p: "?P = dateParser (dateFormat SCREWFIX) 2026"
    by simp
  have f1: "[''01/02/2023'', ''15/03/2023''] =
      dateMatches ?R [''Order date 01/02/2023'', ''Due 15/03/2023'']"
    by code_simp
  have s1: "successfully_parsed ?P [''01/02/2023'', ''15/03/2023''] =
      [\<lparr>year = 2023, month = 2, day = 1\<rparr>, \<lparr>year = 2023, month = 3, day = 15\<rparr>]"
    by code_simp
  have a1: "\<forall>m \<in> set [''01/02/2023'', ''15/03/2023'']. \<not> isl (?P m)"
    by code_simp
  have l1: "datetime_less \<lparr>year = 2023, month = 2, day = 1\<rparr> \<lparr>year = 2023, month = 3, day = 15\<rparr>"
    by code_simp
  have f2: "[] = dateMatches ?R [''no date here'']"
    by code_simp
  have f3: "[''01/02/2023'', ''99/99/9999''] =
      dateMatches ?R [''Order date 01/02/2023'', ''Ref 99/99/9999'']"
    by code_simp
  have a3: "isl (?P ''99/99/9999'')"
    by code_simp
  from extractDate_latest_or_error [OF r f1 p] a1 s1 l1
  have 1: "extractDate SCREWFIX 2026 [''Order date 01/02/2023'', ''Due 15/03/2023''] =
      Inr \<lparr>year = 2023, month = 3, day = 15\<rparr>"
    by auto
  from extractDate_latest_or_error [OF r f2 p]
  have 2: "isl (extractDate SCREWFIX 2026 [''no date here''])"
    by simp
  from extractDate_latest_or_error [OF r f3 p] a3
  have 3: "isl (extractDate SCREWFIX 2026 [''Order date 01/02/2023'', ''Ref 99/99/9999''])"
    by simp
  from 1 2 3 show ?thesis by simp
qed

section \<open>Two-digit years\<close>

text \<open>
  C6. For every date format whose Ys form one run of length n, \<open>extractDate\<close> counts n
  Ys; the year prefix is the first two characters of the current year when n is 2 and
  empty for any other n.  The year of every parsed date is the integer read from the
  prefix followed by the year characters of the match, and the order date is computed
  from the dates so parsed.  For the format YY-MM-DD, the match 24-07-01 and a current
  year that begins with 20, the resolved date is 2024-07-01.
\<close>

theorem year_prefix_for_two_digit_years:
  "(fmt = pre @ replicate n (CHR ''Y'') @ post \<and> CHR ''Y'' \<notin> set pre \<and> CHR ''Y'' \<notin> set post \<longrightarrow>
      numOf (CHR ''Y'') fmt = int n \<and>
      yearPrefixOf fmt nowYear = (if n = 2 then take 2 (py_str nowYear) else []))
   \<and> (dateParser fmt nowYear d = Inr dt \<longrightarrow>
        py_int (yearPrefixOf fmt nowYear @
                py_slice d (py_find (CHR ''Y'') fmt) (py_find (CHR ''Y'') fmt + numOf (CHR ''Y'') fmt))
          = Inr (year dt))
   \<and> (dateRegex (dateFormat v) = Inr regex \<longrightarrow>
        extractDate v nowYear ls =
          (case map_err (dateParser (dateFormat v) nowYear) (dateMatches regex ls) of
             Inl e \<Rightarrow> Inl e | Inr ds \<Rightarrow> py_max ds))
   \<and> (take 2 (py_str nowYear) = ''20'' \<longrightarrow>
        extractDate \<lparr>Vendor.name = vn, dateFormat = ''YY-MM-DD'', itemRegex = rg,
                     itemNameOffsetIndex = a, unitsOffsetIndex = b, unitCostOffsetIndex = c\<rparr>
          nowYear [''24-07-01''] = Inr \<lparr>year = 2024, month = 7, day = 1\<rparr>)"
proof -
  have 1: "fmt = pre @ replicate n (CHR ''Y'') @ post \<and> CHR ''Y'' \<notin> set pre \<and> CHR ''Y'' \<notin> set post \<longrightarrow>
      numOf (CHR ''Y'') fmt = int n \<and>
      yearPrefixOf fmt nowYear = (if n = 2 then take 2 (py_str nowYear) else [])"
  proof
    assume h: "fmt = pre @ replicate n (CHR ''Y'') @ post \<and> CHR ''Y'' \<notin> set pre \<and> CHR ''Y'' \<notin> set post"
    from h have "fmt = pre @ replicate n (CHR ''Y'') @ post" and "CHR ''Y'' \<notin> set pre"
      and "CHR ''Y'' \<notin> set post"
      by simp_all
    then have "numOf (CHR ''Y'') fmt = int n" by (rule numOf_run)
    then show "numOf (CHR ''Y'') fmt = int n \<and>
      yearPrefixOf fmt nowYear = (if n = 2 then take 2 (py_str nowYear) else [])"
      by (simp add: yearPrefixOf_def py_slice_prefix)
  qed
  have 2: "dateParser fmt nowYear d = Inr dt \<longrightarrow>
        py_int (yearPrefixOf fmt nowYear @
                py_slice d (py_find (CHR ''Y'') fmt) (py_find (CHR ''Y'') fmt + numOf (CHR ''Y'') fmt))
          = Inr (year dt)"
    by (auto simp: dateParser_def dest: parseDate_year)
  have 3: "dateRegex (dateFormat v) = Inr regex \<longrightarrow>
        extractDate v nowYear ls =
          (case map_err (dateParser (dateFormat v) nowYear) (dateMatches regex ls) of
             Inl e \<Rightarrow> Inl e | Inr ds \<Rightarrow> py_max ds)"
    by (simp add: extractDate_eq)
  have 4: "take 2 (py_str nowYear) = ''20'' \<longrightarrow>
        extractDate \<lparr>Vendor.name = vn, dateFormat = ''YY-MM-DD'', itemRegex = rg,
                     itemNameOffsetIndex = a, unitsOffsetIndex = b, unitCostOffsetIndex = c\<rparr>
          nowYear [''24-07-01''] = Inr \<lparr>year = 2024, month = 7, day = 1\<rparr>"
  proof
    assume now: "take 2 (py_str nowYear) = ''20''"
    let ?v = "\<lparr>Vendor.name = vn, dateFormat = ''YY-MM-DD'', itemRegex = rg,
                     itemNameOffsetIndex = a, unitsOffsetIndex = b, unitCostOffsetIndex = c\<rparr>"
    let ?R = "concat (map (regexPart ''-'') ''YY-MM-DD'')"
    have r: "dateRegex (dateFormat ?v) = Inr ?R"
      by (simp only: Vendor.simps) code_simp
    have f: "dateMatches ?R [''24-07-01''] = [''24-07-01'']"
      by code_simp
    have n: "numOf (CHR ''Y'') ''YY-MM-DD'' = 2" "numOf (CHR ''M'') ''YY-MM-DD'' = 2"
        "numOf (CHR ''D'') ''YY-MM-DD'' = 2"
      by code_simp+
    have i: "py_find (CHR ''Y'') ''YY-MM-DD'' = 0" "py_find (CHR ''M'') ''YY-MM-DD'' = 3"
        "py_find (CHR ''D'') ''YY-MM-DD'' = 6"
      by code_simp+
    have y: "yearPrefixOf ''YY-MM-DD'' nowYear = ''20''"
      using now by (simp add: yearPrefixOf_def n py_slice_prefix)
    have p: "parseDate ''20'' 0 2 3 2 6 2 ''24-07-01'' = Inr \<lparr>year = 2024, month = 7, day = 1\<rparr>"
      by code_simp
    have "dateParser (dateFormat ?v) nowYear ''24-07-01'' = Inr \<lparr>year = 2024, month = 7, day = 1\<rparr>"
      by (simp add: dateParser_def y n i p)
    with extractDate_eq [OF r, of nowYear "[''24-07-01'']"] f
    show "extractDate ?v nowYear [''24-07-01''] = Inr \<lparr>year = 2024, month = 7, day = 1\<rparr>"
      by simp
  qed
  from 1 2 3 4 show ?thesis by blast
qed

theorem year_prefix_for_two_digit_years_witness:
  "yearPrefixOf ''YY-MM-DD'' 2026 = ''20''
   \<and> yearPrefixOf ''DD/MM/YYYY'' 2026 = []
   \<and> extractDate \<lparr>Vendor.name = ''Example'', dateFormat = ''YY-MM-DD'', itemRegex = ''x'',
                   itemNameOffsetIndex = - 1, unitsOffsetIndex = - 1, unitCostOffsetIndex = 0\<rparr>
        2026 [''24-07-01''] = Inr \<lparr>year = 2024, month = 7, day = 1\<rparr>
   \<and> py_int (''20'' @ ''24'') = Inr 2024"
proof -
  have a: "''YY-MM-DD'' = [] @ replicate 2 (CHR ''Y'') @ ''-MM-DD'' \<and> CHR ''Y'' \<notin> set []
      \<and> CHR ''Y'' \<notin> set ''-MM-DD''"
    by (simp add: numeral_2_eq_2)
  have b: "''DD/MM/YYYY'' = ''DD/MM/'' @ replicate 4 (CHR ''Y'') @ [] \<and> CHR ''Y'' \<notin> set ''DD/MM/''
      \<and> CHR ''Y'' \<notin> set []"
    by (simp add: numeral_Bit0 replicate_add)
  have t: "take 2 (py_str 2026) = ''20''"
    by code_simp
  have d: "dateParser ''YY-MM-DD'' 2026 ''24-07-01'' = Inr \<lparr>year = 2024, month = 7, day = 1\<rparr>"
    by code_simp
  have s: "py_slice ''24-07-01'' (py_find (CHR ''Y'') ''YY-MM-DD'')
      (py_find (CHR ''Y'') ''YY-MM-DD'' + numOf (CHR ''Y'') ''YY-MM-DD'') = ''24''"
    by code_simp
  note w = year_prefix_for_two_digit_years [of "''YY-MM-DD''" "[]" 2 "''-MM-DD''" 2026
      "''24-07-01''" "\<lparr>year = 2024, month = 7, day = 1\<rparr>" _ _ _ "''Example''" "''x''" "- 1" "- 1" 0]
  note w4 = year_prefix_for_two_digit_years [of "''DD/MM/YYYY''" "''DD/MM/''" 4 "[]" 2026]
  from w a have "yearPrefixOf ''YY-MM-DD'' 2026 = (if (2::nat) = 2 then take 2 (py_str 2026) else [])"
    by blast
  with t have 1: "yearPrefixOf ''YY-MM-DD'' 2026 = ''20''"
    by simp
  from w4 b have "yearPrefixOf ''DD/MM/YYYY'' 2026 = (if (4::nat) = 2 then take 2 (py_str 2026) else [])"
    by blast
  then have 2: "yearPrefixOf ''DD/MM/YYYY'' 2026 = []"
    by simp
  from w t
  have 3: "extractDate \<lparr>Vendor.name = ''Example'', dateFormat = ''YY-MM-DD'', itemRegex = ''x'',
                   itemNameOffsetIndex = - 1, unitsOffsetIndex = - 1, unitCostOffsetIndex = 0\<rparr>
        2026 [''24-07-01''] = Inr \<lparr>year = 2024, month = 7, day = 1\<rparr>"
    by blast
  from w d
  have "py_int (yearPrefixOf ''YY-MM-DD'' 2026 @
                py_slice ''24-07-01'' (py_find (CHR ''Y'') ''YY-MM-DD'')
                  (py_find (CHR ''Y'') ''YY-MM-DD'' + numOf (CHR ''Y'') ''YY-MM-DD''))
          = Inr (year \<lparr>year = 2024, month = 7, day = 1\<rparr>)"
    by blast
  with 1 s have 4: "py_int (''20'' @ ''24'') = Inr 2024"
    by simp
  from 1 2 3 4 show ?thesis by simp
qed

section \<open>Independence of the clock\<close>

text \<open>
  C10. For every vendor whose date format holds a number of Ys other than 2, two runs of
  \<open>extractDate\<close> over the same lines at different current years give the same result,
  the same date or the same error.
\<close>

theorem extractDate_ignores_clock:
  assumes "numOf (CHR ''Y'') (dateFormat v) \<noteq> 2"
  shows "extractDate v nowYear1 ls = extractDate v nowYear2 ls"
proof -
  from assms
  have prefix: "yearPrefixOf (dateFormat v) nowYear1 = yearPrefixOf (dateFormat v) nowYear2"
    by (simp add: yearPrefixOf_def)
  show ?thesis
    unfolding extractDate_def prefix by (rule refl)
qed

theorem extractDate_ignores_clock_witness:
  "extractDate SCREWFIX 2026 [''Order date 01/02/2023'', ''Due 15/03/2023'']
     = extractDate SCREWFIX 1999 [''Order date 01/02/2023'', ''Due 15/03/2023'']
   \<and> extractDate TOOLSTATION 2026 [''Order 2023-01-05''] = extractDate TOOLSTATION 1999 [''Order 2023-01-05'']"
proof -
  have s: "numOf (CHR ''Y'') (dateFormat SCREWFIX) \<noteq> 2"
    by code_simp
  have t: "numOf (CHR ''Y'') (dateFormat TOOLSTATION) \<noteq> 2"
    by code_simp
  from extractDate_ignores_clock [OF s] extractDate_ignores_clock [OF t] show ?thesis
    by blast
qed

end
